theory Spec2Isabelle
  imports Main "HOL-Library.AList"
begin

section \<open>JavaScript values used by the server\<close>

text \<open>
  A JavaScript string is modelled as a \<open>string\<close>; a value of type
  \<^verbatim>\<open>string | undefined\<close> as a \<open>string option\<close>.  A string is truthy exactly when it
  is present and not empty; \<^verbatim>\<open>a || b\<close> yields \<open>a\<close> when \<open>a\<close> is truthy and \<open>b\<close>
  otherwise.
\<close>

definition truthy :: "string option \<Rightarrow> bool" where
  "truthy v = (case v of None \<Rightarrow> False | Some s \<Rightarrow> s \<noteq> [])"

definition or_else :: "string option \<Rightarrow> string option \<Rightarrow> string option" where
  "or_else a b = (if truthy a then a else b)"

text \<open>\<^verbatim>\<open>s.startsWith(p)\<close> and \<^verbatim>\<open>s.includes(sub)\<close>.\<close>

fun startsWith :: "string \<Rightarrow> string \<Rightarrow> bool" where
  "startsWith s [] = True"
| "startsWith [] (p # ps) = False"
| "startsWith (c # cs) (p # ps) = (c = p \<and> startsWith cs ps)"

fun includes_str :: "string \<Rightarrow> string \<Rightarrow> bool" where
  "includes_str [] sub = (sub = [])"
| "includes_str (c # cs) sub = (startsWith (c # cs) sub \<or> includes_str cs sub)"

text \<open>Rendering of a value inside a template literal: \<^verbatim>\<open>`${v}`\<close>.\<close>

definition template :: "string option \<Rightarrow> string" where
  "template v = (case v of None \<Rightarrow> ''undefined'' | Some s \<Rightarrow> s)"

text \<open>Rendering of \<^verbatim>\<open>`${!!v}`\<close>.\<close>

definition template_bool :: "bool \<Rightarrow> string" where
  "template_bool b = (if b then ''true'' else ''false'')"

subsection \<open>\<^verbatim>\<open>JSON.stringify\<close> on an object with string members\<close>

text \<open>
  \<^verbatim>\<open>JSON.stringify\<close> quotes a string as ECMAScript's QuoteJSONString does: the
  characters with a short escape get it, any other character below \<open>0x20\<close> becomes
  \<^verbatim>\<open>\u00XX\<close> in lower-case hexadecimal, and every other character is copied.  A member
  whose value is \<^verbatim>\<open>undefined\<close> is left out; the others appear in the order of the object
  literal, separated by commas.  A \<open>char\<close> stands for a code unit below \<open>0x100\<close>; the
  surrogate code units, which have escapes of their own, are outside the model.
\<close>

definition dquote :: char where
  "dquote = CHR 0x22"

definition backslash :: char where
  "backslash = CHR 0x5C"

definition hexDigit :: "nat \<Rightarrow> char" where
  "hexDigit n = ''0123456789abcdef'' ! n"

definition UnicodeEscape :: "char \<Rightarrow> string" where
  "UnicodeEscape c =
     [backslash, CHR ''u'', CHR ''0'', CHR ''0'',
      hexDigit ((of_char c :: nat) div 16), hexDigit ((of_char c :: nat) mod 16)]"

definition quoteChar :: "char \<Rightarrow> string" where
  "quoteChar c =
     (if c = CHR 0x08 then [backslash, CHR ''b'']
      else if c = CHR 0x09 then [backslash, CHR ''t'']
      else if c = CHR 0x0A then [backslash, CHR ''n'']
      else if c = CHR 0x0C then [backslash, CHR ''f'']
      else if c = CHR 0x0D then [backslash, CHR ''r'']
      else if c = dquote then [backslash, dquote]
      else if c = backslash then [backslash, backslash]
      else if (of_char c :: nat) < 0x20 then UnicodeEscape c
      else [c])"

definition QuoteJSONString :: "string \<Rightarrow> string" where
  "QuoteJSONString s = dquote # concat (map quoteChar s) @ [dquote]"

definition json_member :: "string \<times> string option \<Rightarrow> string list" where
  "json_member m =
     (case snd m of None \<Rightarrow> []
      | Some s \<Rightarrow> [QuoteJSONString (fst m) @ '':'' @ QuoteJSONString s])"

fun join_comma :: "string list \<Rightarrow> string" where
  "join_comma [] = []"
| "join_comma [x] = x"
| "join_comma (x # y # ys) = x @ '','' @ join_comma (y # ys)"

definition JSON_stringify :: "(string \<times> string option) list \<Rightarrow> string" where
  "JSON_stringify ms = ''{'' @ join_comma (concat (map json_member ms)) @ ''}''"

section \<open>Configuration (server.ts, \<^verbatim>\<open>getStagehandConfig\<close>)\<close>

record ApiKeys =
  browserbaseApiKey :: "string option"
  browserbaseProjectId :: "string option"
  openaiApiKey :: "string option"

text \<open>The variables of \<^verbatim>\<open>process.env\<close> that the server reads.\<close>

record Env =
  BROWSERBASE_API_KEY :: "string option"
  BROWSERBASE_PROJECT_ID :: "string option"
  OPENAI_API_KEY :: "string option"
  CONTEXT_ID :: "string option"

text \<open>
  The fields of \<^verbatim>\<open>ConstructorParams\<close> that vary from one configuration to the next.
  \<open>modelApiKey\<close> is \<^verbatim>\<open>modelClientOptions.apiKey\<close> and \<open>contextId\<close> is
  \<^verbatim>\<open>browserbaseSessionCreateParams.browserSettings?.context?.id\<close>; every other field
  of the object literal is a constant.
\<close>

record ConstructorParams =
  apiKey :: "string option"
  projectId :: "string option"
  modelApiKey :: "string option"
  contextId :: "string option"

definition apiKeys_field :: "ApiKeys option \<Rightarrow> (ApiKeys \<Rightarrow> string option) \<Rightarrow> string option" where
  "apiKeys_field k f = (case k of None \<Rightarrow> None | Some a \<Rightarrow> f a)"

definition missing_keys_message :: "string option \<Rightarrow> string option \<Rightarrow> string option \<Rightarrow> string" where
  "missing_keys_message a p k =
     ''Missing required API keys: ''
       @ (if \<not> truthy a then ''browserbaseApiKey '' else [])
       @ (if \<not> truthy p then ''browserbaseProjectId '' else [])
       @ (if \<not> truthy k then ''openaiApiKey'' else [])"

definition getStagehandConfig :: "Env \<Rightarrow> ApiKeys option \<Rightarrow> string + ConstructorParams" where
  "getStagehandConfig env apiKeys =
     (let a = or_else (apiKeys_field apiKeys browserbaseApiKey) (BROWSERBASE_API_KEY env);
          p = or_else (apiKeys_field apiKeys browserbaseProjectId) (BROWSERBASE_PROJECT_ID env);
          k = or_else (apiKeys_field apiKeys openaiApiKey) (OPENAI_API_KEY env)
      in if \<not> truthy a \<or> \<not> truthy p \<or> \<not> truthy k
         then Inl (missing_keys_message a p k)
         else Inr \<lparr>apiKey = a, projectId = p, modelApiKey = k,
                   contextId = (if truthy (CONTEXT_ID env) then CONTEXT_ID env else None)\<rparr>)"

section \<open>The session manager (server.ts, class \<^verbatim>\<open>SessionManager\<close>)\<close>

definition getSessionKey :: "ConstructorParams \<Rightarrow> string" where
  "getSessionKey config =
     JSON_stringify
       [(''browserbaseApiKey'', apiKey config),
        (''browserbaseProjectId'', projectId config),
        (''openaiApiKey'', modelApiKey config),
        (''contextId'', contextId config)]"


text \<open>
  A \<^verbatim>\<open>Map\<close> as ECMAScript describes it: a list of entries in insertion order, in
  which \<^verbatim>\<open>delete\<close> leaves an empty entry behind, so that the index of an iterator
  stays valid while the map changes.  \<^verbatim>\<open>set\<close> overwrites the value of a key that is
  there, in place, and appends an entry for a key that is not; \<open>live\<close> lists the
  entries that are there, which is what \<^verbatim>\<open>get\<close> reads.
\<close>

fun live :: "('k \<times> 'v) option list \<Rightarrow> ('k \<times> 'v) list" where
  "live [] = []"
| "live (None # md) = live md"
| "live (Some p # md) = p # live md"

fun map_set :: "'k \<Rightarrow> 'v \<Rightarrow> ('k \<times> 'v) option list \<Rightarrow> ('k \<times> 'v) option list" where
  "map_set k v [] = [Some (k, v)]"
| "map_set k v (None # md) = None # map_set k v md"
| "map_set k v (Some p # md) = (if fst p = k then Some (k, v) # md else Some p # map_set k v md)"

fun map_delete :: "'k \<Rightarrow> ('k \<times> 'v) option list \<Rightarrow> ('k \<times> 'v) option list" where
  "map_delete k [] = []"
| "map_delete k (None # md) = None # map_delete k md"
| "map_delete k (Some p # md) = (if fst p = k then None else Some p) # map_delete k md"

text \<open>
  A \<^verbatim>\<open>Stagehand\<close> object is identified by the number of objects constructed before
  it.  Besides the entries of the manager's map, the state records what the manager did
  to the outside world: how many \<^verbatim>\<open>Stagehand\<close> objects it constructed and on which
  handles it called \<^verbatim>\<open>page.close()\<close>, in order.  \<open>sessions\<close> is the map as its readers
  see it: the live entries, in insertion order.
\<close>

type_synonym handle = nat

record StagehandSession =
  stagehand :: handle
  config :: ConstructorParams
  lastUsed :: int

record manager =
  mapData :: "(string \<times> StagehandSession) option list"
  constructed :: nat
  closed :: "handle list"

definition sessions :: "manager \<Rightarrow> (string \<times> StagehandSession) list" where
  "sessions st = live (mapData st)"

definition sessionTimeout :: int where
  "sessionTimeout = 5 * 60 * 1000"

text \<open>
  What the outside world answers during one call of \<^verbatim>\<open>getSession\<close>: whether the
  existing record's \<^verbatim>\<open>stagehand.page\<close> is there, the result of the probe
  \<^verbatim>\<open>page.evaluate(() => document.title)\<close> (\<open>None\<close> when it resolves, the error's
  message when it rejects), and the result of \<^verbatim>\<open>stagehand.init()\<close>.
\<close>

datatype init_outcome = InitOk | InitNoPage | InitFails string

record world =
  page_ok :: bool
  probe_result :: "string option"
  init_result :: init_outcome

definition missing_configuration_message :: "ConstructorParams \<Rightarrow> string" where
  "missing_configuration_message c =
     ''Missing required configuration: apiKey='' @ template_bool (truthy (apiKey c))
       @ '', projectId='' @ template_bool (truthy (projectId c))
       @ '', modelClientOptions.apiKey='' @ template_bool (truthy (modelApiKey c))"

text \<open>
  Lines 441--456: the validation of the configuration and \<^verbatim>\<open>new Stagehand(config)\<close>,
  up to the \<^verbatim>\<open>await\<close> on \<^verbatim>\<open>init()\<close>.  The constructor itself is taken not to throw.
\<close>

definition create_session :: "ConstructorParams \<Rightarrow> manager \<Rightarrow> (string + handle) \<times> manager" where
  "create_session c st =
     (if \<not> truthy (apiKey c) \<or> \<not> truthy (projectId c) \<or> \<not> truthy (modelApiKey c)
      then (Inl (missing_configuration_message c), st)
      else (Inr (constructed st), st\<lparr>constructed := Suc (constructed st)\<rparr>))"

text \<open>Lines 457--474: what happens once \<^verbatim>\<open>init()\<close> has settled.\<close>

definition after_init ::
  "string \<Rightarrow> ConstructorParams \<Rightarrow> handle \<Rightarrow> init_outcome \<Rightarrow> int \<Rightarrow> manager \<Rightarrow> (string + handle) \<times> manager" where
  "after_init key c h r now st =
     (case r of
        InitFails msg \<Rightarrow> (Inl msg, st)
      | InitNoPage \<Rightarrow> (Inl ''Stagehand initialization completed but page object is undefined'', st)
      | InitOk \<Rightarrow>
          (Inr h, st\<lparr>mapData :=
              map_set key \<lparr>stagehand = h, config = c, lastUsed = now\<rparr> (mapData st)\<rparr>))"

text \<open>
  Line 431, \<^verbatim>\<open>existingSession.lastUsed = Date.now()\<close>, writes to the record object
  that was read from the map before the probe.  A record object and its handle are
  created together, so the object is still the one in the map exactly when the map's
  record for the key has that handle; a write to a record that has left the map is not
  visible in the map.
\<close>

definition touch :: "string \<Rightarrow> handle \<Rightarrow> int \<Rightarrow> manager \<Rightarrow> manager" where
  "touch key h now st =
     (case map_of (sessions st) key of
        None \<Rightarrow> st
      | Some r \<Rightarrow>
          if stagehand r = h
          then st\<lparr>mapData := map_set key (r\<lparr>lastUsed := now\<rparr>) (mapData st)\<rparr>
          else st)"

definition remove_session :: "string \<Rightarrow> manager \<Rightarrow> manager" where
  "remove_session key st = st\<lparr>mapData := map_delete key (mapData st)\<rparr>"

definition recreate ::
  "string \<Rightarrow> ConstructorParams \<Rightarrow> init_outcome \<Rightarrow> int \<Rightarrow> manager \<Rightarrow> (string + handle) \<times> manager" where
  "recreate key c r now st =
     (case create_session c st of
        (Inl e, st1) \<Rightarrow> (Inl e, st1)
      | (Inr h, st1) \<Rightarrow> after_init key c h r now st1)"

text \<open>
  \<^verbatim>\<open>getSession\<close> run without another task in between.  Any failure inside the first
  \<^verbatim>\<open>try\<close> (missing page, rejected probe) lands in the \<^verbatim>\<open>catch\<close> of line 433, which
  deletes the record and falls through to the creation of a new session.
\<close>

definition getSession ::
  "Env \<Rightarrow> ApiKeys option \<Rightarrow> world \<Rightarrow> int \<Rightarrow> manager \<Rightarrow> (string + handle) \<times> manager" where
  "getSession env apiKeys w now st =
     (case getStagehandConfig env apiKeys of
        Inl e \<Rightarrow> (Inl e, st)
      | Inr c \<Rightarrow>
          (let sessionKey = getSessionKey c in
           case map_of (sessions st) sessionKey of
             Some existingSession \<Rightarrow>
               if page_ok w \<and> probe_result w = None
               then (Inr (stagehand existingSession),
                     touch sessionKey (stagehand existingSession) now st)
               else recreate sessionKey c (init_result w) now (remove_session sessionKey st)
           | None \<Rightarrow> recreate sessionKey c (init_result w) now st))"

text \<open>
  \<^verbatim>\<open>page.close()\<close> on a handle: the call is recorded, and it throws when the world says
  so.  \<open>try_ignore\<close> is \<^verbatim>\<open>try { await ... } catch (error) { }\<close>.
\<close>

definition page_close :: "(handle \<Rightarrow> string option) \<Rightarrow> handle \<Rightarrow> manager \<Rightarrow> (string + unit) \<times> manager" where
  "page_close close_error h st =
     ((case close_error h of Some e \<Rightarrow> Inl e | None \<Rightarrow> Inr ()),
      st\<lparr>closed := closed st @ [h]\<rparr>)"

definition try_ignore :: "(string + unit) \<times> manager \<Rightarrow> manager" where
  "try_ignore r = (case r of (Inl e, st) \<Rightarrow> st | (Inr u, st) \<Rightarrow> st)"

definition closeSession ::
  "Env \<Rightarrow> ApiKeys option \<Rightarrow> (handle \<Rightarrow> string option) \<Rightarrow> manager \<Rightarrow> (string + unit) \<times> manager" where
  "closeSession env apiKeys close_error st =
     (case getStagehandConfig env apiKeys of
        Inl e \<Rightarrow> (Inl e, st)
      | Inr c \<Rightarrow>
          (let sessionKey = getSessionKey c in
           case map_of (sessions st) sessionKey of
             None \<Rightarrow> (Inr (), st)
           | Some session \<Rightarrow>
               (Inr (), remove_session sessionKey
                          (try_ignore (page_close close_error (stagehand session) st)))))"

text \<open>The test of the sweep's loop, line 518, as a predicate on an entry.\<close>

definition stale :: "int \<Rightarrow> string \<times> StagehandSession \<Rightarrow> bool" where
  "stale now e = (now - lastUsed (snd e) > sessionTimeout)"

subsection \<open>Tasks and their interleaving\<close>

text \<open>
  An \<^verbatim>\<open>async\<close> function runs until its next \<^verbatim>\<open>await\<close> and is resumed later, after
  other tasks may have run.  A call of \<^verbatim>\<open>getSession\<close> is therefore a task with a
  program counter: not yet started, suspended in the probe of line 429, suspended in
  \<^verbatim>\<open>init()\<close> of line 457, or finished.  A call of \<^verbatim>\<open>cleanupStaleSessions\<close> is not
  yet started, suspended in the \<^verbatim>\<open>page.close()\<close> of line 520, or finished; while
  suspended it holds the clock value read at line 514, the index of its iterator over
  the entries, the key of the entry being closed and the list \<^verbatim>\<open>keysToRemove\<close>.
  Each step runs one task from its program counter to its next \<^verbatim>\<open>await\<close>, with the
  world's answer for the point it resumes from.  A call that throws before it hands out
  a promise is the schedule in which the answer follows at once.
\<close>

datatype pc =
    Start Env "ApiKeys option"
  | AwaitProbe string ConstructorParams handle
  | AwaitInit string ConstructorParams handle
  | Finished "string + handle"
  | SweepStart
  | SweepAwaitClose int nat string "string list"
  | SweepFinished

datatype answer =
    PageCheck bool
  | ProbeResult "string option"
  | InitResult init_outcome
  | Go
  | CloseResult "string option"

definition suspend_init :: "string \<Rightarrow> ConstructorParams \<Rightarrow> manager \<Rightarrow> pc \<times> manager" where
  "suspend_init key c st =
     (case create_session c st of
        (Inl e, st1) \<Rightarrow> (Finished (Inl e), st1)
      | (Inr h, st1) \<Rightarrow> (AwaitInit key c h, st1))"

text \<open>
  The iterator of line 517 from index \<open>i\<close> on, over the entries from that index: the
  first entry that is there and passes the test of line 518, with the index after it.
\<close>

fun scan ::
  "int \<Rightarrow> nat \<Rightarrow> (string \<times> StagehandSession) option list
     \<Rightarrow> (nat \<times> string \<times> StagehandSession) option" where
  "scan now i [] = None"
| "scan now i (None # es) = scan now (Suc i) es"
| "scan now i (Some e # es) =
     (if now - lastUsed (snd e) > sessionTimeout then Some (Suc i, fst e, snd e)
      else scan now (Suc i) es)"

text \<open>
  The loop of lines 517--526 from an iterator index up to its next \<^verbatim>\<open>await\<close>, where
  \<^verbatim>\<open>page.close()\<close> has been called on the entry's handle, or through its end and the
  deletions of line 528.
\<close>

definition cleanupStaleSessions_loop :: "int \<Rightarrow> nat \<Rightarrow> string list \<Rightarrow> manager \<Rightarrow> pc \<times> manager" where
  "cleanupStaleSessions_loop now index keysToRemove st =
     (case scan now index (drop index (mapData st)) of
        Some (next, key, session) \<Rightarrow>
          (SweepAwaitClose now next key keysToRemove,
           st\<lparr>closed := closed st @ [stagehand session]\<rparr>)
      | None \<Rightarrow>
          (SweepFinished, st\<lparr>mapData := fold map_delete keysToRemove (mapData st)\<rparr>))"

text \<open>
  One step of a task.  The result of \<^verbatim>\<open>page.close()\<close> is dropped by the \<^verbatim>\<open>catch\<close> of
  line 521, and line 524 pushes the key either way.  An answer that the task is not
  waiting for changes nothing.
\<close>

fun resume :: "pc \<Rightarrow> answer \<Rightarrow> int \<Rightarrow> manager \<Rightarrow> pc \<times> manager" where
  "resume (Start env apiKeys) (PageCheck ok) now st =
     (case getStagehandConfig env apiKeys of
        Inl e \<Rightarrow> (Finished (Inl e), st)
      | Inr c \<Rightarrow>
          (let sessionKey = getSessionKey c in
           case map_of (sessions st) sessionKey of
             Some existingSession \<Rightarrow>
               if ok then (AwaitProbe sessionKey c (stagehand existingSession), st)
               else suspend_init sessionKey c (remove_session sessionKey st)
           | None \<Rightarrow> suspend_init sessionKey c st))"
| "resume (AwaitProbe key c h) (ProbeResult r) now st =
     (case r of
        None \<Rightarrow> (Finished (Inr h), touch key h now st)
      | Some msg \<Rightarrow> suspend_init key c (remove_session key st))"
| "resume (AwaitInit key c h) (InitResult r) now st =
     (case after_init key c h r now st of (res, st1) \<Rightarrow> (Finished res, st1))"
| "resume SweepStart Go now st = cleanupStaleSessions_loop now 0 [] st"
| "resume (SweepAwaitClose now0 index key keysToRemove) (CloseResult r) now st =
     cleanupStaleSessions_loop now0 index (keysToRemove @ [key]) st"
| "resume p a now st = (p, st)"

text \<open>A schedule names, step by step, the task that runs, the world's answer and the clock.\<close>

fun run :: "(nat \<times> answer \<times> int) list \<Rightarrow> pc list \<times> manager \<Rightarrow> pc list \<times> manager" where
  "run [] cfg = cfg"
| "run ((i, a, now) # evs) (pcs, st) =
     (if i < length pcs
      then (case resume (pcs ! i) a now st of (p, st1) \<Rightarrow> run evs (pcs[i := p], st1))
      else run evs (pcs, st))"

section \<open>The protocol dispatcher (server.ts, handler of \<^verbatim>\<open>CallToolRequestSchema\<close>)\<close>

text \<open>
  What a handler returns: the object \<^verbatim>\<open>{error: {code, message}}\<close>, the object
  \<^verbatim>\<open>{content: [{type: "text", text}, ...], isError: true}\<close> with its texts, or the
  parsed, sanitized result of the tool.
\<close>

datatype 'r envelope =
    ErrorObject int string
  | ToolFailure "string list"
  | ToolResult 'r

definition isError :: "'r envelope \<Rightarrow> bool" where
  "isError e = (case e of ToolFailure texts \<Rightarrow> True | _ \<Rightarrow> False)"

fun join_newline :: "string list \<Rightarrow> string" where
  "join_newline [] = []"
| "join_newline [x] = x"
| "join_newline (x # y # ys) = x @ [CHR 0x0A] @ join_newline (y # ys)"

definition internal_error :: "string \<Rightarrow> 'r envelope" where
  "internal_error errorMsg = ErrorObject (- 32603) (''Internal error: '' @ errorMsg)"

definition tool_failure :: "string \<Rightarrow> string list \<Rightarrow> 'r envelope" where
  "tool_failure errorMsg operationLogs =
     ToolFailure [''Failed to initialize Stagehand: '' @ errorMsg,
                  ''Operation logs:'' @ [CHR 0x0A] @ join_newline operationLogs]"

text \<open>
  \<^verbatim>\<open>tools.ts\<close> and \<^verbatim>\<open>utils.ts\<close> are not part of the sources at hand: the names in
  \<^verbatim>\<open>TOOLS\<close>, \<^verbatim>\<open>handleToolCall\<close> and the composition of \<^verbatim>\<open>sanitizeMessage\<close> with
  \<^verbatim>\<open>JSON.parse\<close> are parameters, the last two with an error branch for a throw.
  \<open>operationLogs\<close> is the content of the log buffer when the inner \<^verbatim>\<open>catch\<close> reads it.
  The logging calls are taken not to throw.  \<open>name\<close> is \<^verbatim>\<open>request.params?.name\<close>.
\<close>

definition callTool ::
  "string list \<Rightarrow> (string \<Rightarrow> 'a \<Rightarrow> handle \<Rightarrow> string + 'b) \<Rightarrow> ('b \<Rightarrow> string + 'r) \<Rightarrow> string list
     \<Rightarrow> Env \<Rightarrow> ApiKeys option \<Rightarrow> world \<Rightarrow> int \<Rightarrow> string option \<Rightarrow> 'a \<Rightarrow> manager
     \<Rightarrow> 'r envelope \<times> manager" where
  "callTool TOOLS handleToolCall sanitize operationLogs env apiKeys w now name arguments st =
     (if \<not> truthy name \<or> template name \<notin> set TOOLS
      then (internal_error (''Invalid tool name: '' @ template name), st)
      else
        (case getSession env apiKeys w now st of
           (Inl errorMsg, st1) \<Rightarrow> (tool_failure errorMsg operationLogs, st1)
         | (Inr stagehandInstance, st1) \<Rightarrow>
             (case handleToolCall (template name) arguments stagehandInstance of
                Inl errorMsg \<Rightarrow> (tool_failure errorMsg operationLogs, st1)
              | Inr result \<Rightarrow>
                  (case sanitize result of
                     Inl errorMsg \<Rightarrow> (tool_failure errorMsg operationLogs, st1)
                   | Inr parsed \<Rightarrow> (ToolResult parsed, st1)))))"

section \<open>The connection registry and the message endpoint (the SSE entry point)\<close>

text \<open>
  The object \<^verbatim>\<open>sessions\<close> of the entry point maps a stream session id to its entry
  \<^verbatim>\<open>{transport, response}\<close>; the entry is kept abstract.  A request offers its query
  parameters and headers by name.
\<close>

record Request =
  query :: "string \<Rightarrow> string option"
  headers :: "string \<Rightarrow> string option"

datatype http_response = Status nat string | EventStream

definition extractApiKeys :: "Request \<Rightarrow> ApiKeys" where
  "extractApiKeys req =
     \<lparr>browserbaseApiKey =
        or_else (query req ''browserbase_api_key'') (headers req ''x-browserbase-api-key''),
      browserbaseProjectId =
        or_else (query req ''browserbase_project_id'') (headers req ''x-browserbase-project-id''),
      openaiApiKey =
        or_else (query req ''openai_api_key'') (headers req ''x-openai-api-key'')\<rparr>"

definition missing_api_keys_body :: string where
  "missing_api_keys_body =
     ''Missing required API keys. Keys can be provided either as headers (x-browserbase-api-key, x-browserbase-project-id, x-openai-api-key) ''
     @ ''or as query parameters (browserbase_api_key, browserbase_project_id, openai_api_key)''"

text \<open>
  The handler of \<^verbatim>\<open>GET /sse\<close>.  \<open>connect\<close> is the outcome of \<^verbatim>\<open>createServer\<close> and
  \<^verbatim>\<open>server.connect\<close>: the error caught by line 122, or the transport's
  \<^verbatim>\<open>sessionId\<close>; \<open>entry\<close> is the entry to store.
\<close>

definition sse_get ::
  "Request \<Rightarrow> string + string option \<Rightarrow> 'c \<Rightarrow> (string \<Rightarrow> 'c option) \<Rightarrow> http_response \<times> (string \<Rightarrow> 'c option)" where
  "sse_get req connect entry reg =
     (let apiKeys = extractApiKeys req in
      if \<not> truthy (browserbaseApiKey apiKeys) \<or> \<not> truthy (browserbaseProjectId apiKeys)
           \<or> \<not> truthy (openaiApiKey apiKeys)
      then (Status 401 missing_api_keys_body, reg)
      else
        (case connect of
           Inl error \<Rightarrow> (Status 500 ''Error connecting to server'', reg)
         | Inr sessionId \<Rightarrow>
             if truthy sessionId then (EventStream, reg(template sessionId \<mapsto> entry))
             else (EventStream, reg)))"

text \<open>\<^verbatim>\<open>delete sessions[sessionId]\<close>, as the three close handlers do.\<close>

definition sse_close :: "string \<Rightarrow> (string \<Rightarrow> 'c option) \<Rightarrow> (string \<Rightarrow> 'c option)" where
  "sse_close sessionId reg = reg(sessionId := None)"

text \<open>
  The handler of \<^verbatim>\<open>POST /messages\<close>.  \<open>sessionId\<close> is \<^verbatim>\<open>req.query.sessionId\<close>.  The
  transport's \<^verbatim>\<open>handlePostMessage\<close> either writes a response, or fails (by a throw
  or a rejection) having sent a response already or not.
\<close>

datatype post_outcome = Handled http_response | PostFailed "http_response option"

definition messages_post ::
  "string option \<Rightarrow> ('c \<Rightarrow> post_outcome) \<Rightarrow> (string \<Rightarrow> 'c option) \<Rightarrow> http_response \<times> (string \<Rightarrow> 'c option)" where
  "messages_post sessionId handlePostMessage reg =
     (if \<not> truthy sessionId then (Status 400 ''Missing sessionId parameter'', reg)
      else
        (case reg (template sessionId) of
           Some session \<Rightarrow>
             (case handlePostMessage session of
                Handled r \<Rightarrow> (r, reg)
              | PostFailed (Some sent) \<Rightarrow> (sent, reg)
              | PostFailed None \<Rightarrow> (Status 500 ''Internal server error'', reg))
         | None \<Rightarrow>
             (Status 503 (''No active SSE connection for session '' @ template sessionId), reg)))"

section \<open>Screenshots (resources.ts)\<close>

text \<open>
  The two module-level maps.  A \<^verbatim>\<open>Map\<close> is an association list in insertion order and
  a \<^verbatim>\<open>Set\<close> a list of its elements in insertion order.
\<close>

record resources =
  screenshots :: "(string \<times> string) list"
  sessionScreenshots :: "(string \<times> string list) list"

definition set_add :: "string \<Rightarrow> string list \<Rightarrow> string list" where
  "set_add x xs = (if x \<in> set xs then xs else xs @ [x])"

definition addScreenshot :: "string \<Rightarrow> string \<Rightarrow> string \<Rightarrow> resources \<Rightarrow> resources" where
  "addScreenshot sessionId name data st =
     (let shots = AList.update name data (screenshots st);
          tracking =
            (if map_of (sessionScreenshots st) sessionId = None
             then AList.update sessionId [] (sessionScreenshots st)
             else sessionScreenshots st)
      in \<lparr>screenshots = shots,
          sessionScreenshots =
            (case map_of tracking sessionId of
               None \<Rightarrow> tracking
             | Some names \<Rightarrow> AList.update sessionId (set_add name names) tracking)\<rparr>)"

text \<open>The loop of \<^verbatim>\<open>cleanupSessionScreenshots\<close>; \<^verbatim>\<open>Map.delete\<close> says whether the key was there.\<close>

fun cleanup_loop :: "string list \<Rightarrow> (string \<times> string) list \<Rightarrow> nat \<Rightarrow> (string \<times> string) list \<times> nat" where
  "cleanup_loop [] shots count = (shots, count)"
| "cleanup_loop (name # names) shots count =
     (if map_of shots name \<noteq> None
      then cleanup_loop names (AList.delete name shots) (count + 1)
      else cleanup_loop names shots count)"

definition cleanupSessionScreenshots :: "string \<Rightarrow> resources \<Rightarrow> nat \<times> resources" where
  "cleanupSessionScreenshots sessionId st =
     (case map_of (sessionScreenshots st) sessionId of
        None \<Rightarrow> (0, st)
      | Some sessionShots \<Rightarrow>
          (case cleanup_loop sessionShots (screenshots st) 0 of
             (shots, count) \<Rightarrow>
               (count, \<lparr>screenshots = shots,
                        sessionScreenshots = AList.delete sessionId (sessionScreenshots st)\<rparr>)))"

record resource_entry =
  entry_uri :: string
  entry_mimeType :: string
  entry_name :: string

definition listResources :: "resources \<Rightarrow> resource_entry list" where
  "listResources st =
     map (\<lambda>n. \<lparr>entry_uri = ''screenshot://'' @ n, entry_mimeType = ''image/png'',
               entry_name = ''Screenshot: '' @ n\<rparr>)
       (map fst (screenshots st))"

text \<open>
  \<^verbatim>\<open>s.split(sep)\<close> for a separator that is not empty: the pieces between the
  occurrences of the separator, found from left to right.  \<open>piece\<close> is the piece being
  read.
\<close>

fun split_from :: "string \<Rightarrow> string \<Rightarrow> string \<Rightarrow> string list" where
  "split_from sep piece [] = [piece]"
| "split_from sep piece (c # cs) =
     (if sep \<noteq> [] \<and> startsWith (c # cs) sep
      then piece # split_from sep [] (drop (length sep - 1) cs)
      else split_from sep (piece @ [c]) cs)"

definition split :: "string \<Rightarrow> string \<Rightarrow> string list" where
  "split s sep = split_from sep [] s"

record content =
  content_uri :: string
  content_mimeType :: string
  blob :: string

text \<open>
  \<^verbatim>\<open>readResource\<close>: the error is the message of the \<^verbatim>\<open>Error\<close> thrown.  An index
  beyond the pieces reads \<^verbatim>\<open>undefined\<close>, for which the map has nothing; a stored
  string passes \<^verbatim>\<open>if (screenshot)\<close> when it is not empty.
\<close>

definition readResource :: "string \<Rightarrow> resources \<Rightarrow> string + content list" where
  "readResource u st =
     (let found =
        (if startsWith u ''screenshot://''
         then (case split u ''://'' of
                 first # name # rest \<Rightarrow>
                   (case map_of (screenshots st) name of
                      Some screenshot \<Rightarrow> if screenshot \<noteq> [] then Some screenshot else None
                    | None \<Rightarrow> None)
               | _ \<Rightarrow> None)
         else None)
      in case found of
           Some screenshot \<Rightarrow>
             Inr [\<lparr>content_uri = u, content_mimeType = ''image/png'', blob = screenshot\<rparr>]
         | None \<Rightarrow> Inl (''Resource not found: '' @ u))"


section \<open>The classification of probe failures\<close>

text \<open>
  The test on the message of a probe failure that the single-instance
  \<^verbatim>\<open>ensureStagehand\<close> applies at lines 110--112 before it builds a new instance.
\<close>

definition isResourceGone :: "string \<Rightarrow> bool" where
  "isResourceGone msg =
     (includes_str msg ''Target page, context or browser has been closed''
      \<or> includes_str msg ''Session expired''
      \<or> includes_str msg ''context destroyed'')"

section \<open>Example values\<close>

text \<open>The state of \<^verbatim>\<open>new SessionManager()\<close> and the empty screenshot maps of the module.\<close>

definition new_SessionManager :: manager where
  "new_SessionManager = \<lparr>mapData = [], constructed = 0, closed = []\<rparr>"

definition no_resources :: resources where
  "no_resources = \<lparr>screenshots = [], sessionScreenshots = []\<rparr>"

definition example_env :: Env where
  "example_env =
     \<lparr>BROWSERBASE_API_KEY = None, BROWSERBASE_PROJECT_ID = None, OPENAI_API_KEY = None,
      CONTEXT_ID = None\<rparr>"

definition example_keys :: "ApiKeys option" where
  "example_keys =
     Some \<lparr>browserbaseApiKey = Some ''bb'', browserbaseProjectId = Some ''proj'',
           openaiApiKey = Some ''sk''\<rparr>"

definition example_config :: ConstructorParams where
  "example_config =
     \<lparr>apiKey = Some ''bb'', projectId = Some ''proj'', modelApiKey = Some ''sk'',
      contextId = None\<rparr>"

definition example_session :: "handle \<Rightarrow> int \<Rightarrow> string \<times> StagehandSession" where
  "example_session h t =
     (getSessionKey example_config, \<lparr>stagehand = h, config = example_config, lastUsed = t\<rparr>)"

definition example_request :: Request where
  "example_request =
     \<lparr>query = (\<lambda>k. None),
      headers = [''x-browserbase-api-key'' \<mapsto> ''bb'', ''x-browserbase-project-id'' \<mapsto> ''proj'',
                 ''x-openai-api-key'' \<mapsto> ''sk'']\<rparr>"

definition example_world :: "bool \<Rightarrow> string option \<Rightarrow> init_outcome \<Rightarrow> world" where
  "example_world ok p i = \<lparr>page_ok = ok, probe_result = p, init_result = i\<rparr>"

section \<open>The fingerprint\<close>

lemma hexDigit_inj: "a < 16 \<Longrightarrow> b < 16 \<Longrightarrow> hexDigit a = hexDigit b \<Longrightarrow> a = b"
proof -
  assume a: "a < 16" and b: "b < 16" and e: "hexDigit a = hexDigit b"
  have d: "distinct ''0123456789abcdef''" by simp
  have l: "length ''0123456789abcdef'' = 16" by simp
  from e show ?thesis unfolding hexDigit_def
    using nth_eq_iff_index_eq [OF d, of a b] a b l by simp
qed

lemma hex_pair_inj:
  assumes "(of_char c :: nat) < 32" "(of_char d :: nat) < 32"
    and h: "hexDigit ((of_char c :: nat) div 16) = hexDigit ((of_char d :: nat) div 16)"
    and l: "hexDigit ((of_char c :: nat) mod 16) = hexDigit ((of_char d :: nat) mod 16)"
  shows "c = d"
proof -
  let ?m = "of_char c :: nat" and ?n = "of_char d :: nat"
  have "?m div 16 < 16" "?n div 16 < 16" using assms(1,2) by simp_all
  then have 1: "?m div 16 = ?n div 16" using h hexDigit_inj by blast
  have "?m mod 16 < 16" "?n mod 16 < 16" by simp_all
  then have 2: "?m mod 16 = ?n mod 16" using l hexDigit_inj by blast
  from 1 2 have "?m = ?n" by (metis div_mult_mod_eq)
  then show ?thesis by simp
qed

text \<open>The escapes form a prefix code, and none of them starts with the closing quote.\<close>

lemma quoteChar_prefix_code:
  "quoteChar c @ r = quoteChar d @ r' \<Longrightarrow> c = d \<and> r = r'"
  by (auto simp: quoteChar_def UnicodeEscape_def backslash_def dquote_def
      split: if_splits dest: hex_pair_inj)

lemma quoteChar_not_dquote: "quoteChar c @ r \<noteq> dquote # r'"
  by (auto simp: quoteChar_def UnicodeEscape_def backslash_def dquote_def)

lemma quoted_body_inj:
  "concat (map quoteChar s) @ dquote # r = concat (map quoteChar t) @ dquote # r'
     \<Longrightarrow> s = t \<and> r = r'"
proof (induction s arbitrary: t)
  case Nil
  then show ?case using quoteChar_not_dquote [of _ _ r]
    by (cases t) (auto simp: eq_commute)
next
  case (Cons c s)
  show ?case
  proof (cases t)
    case Nil
    with Cons.prems show ?thesis using quoteChar_not_dquote by auto
  next
    case (Cons d t')
    with Cons.prems have "quoteChar c @ (concat (map quoteChar s) @ dquote # r)
        = quoteChar d @ (concat (map quoteChar t') @ dquote # r')" by simp
    then have "c = d"
      and "concat (map quoteChar s) @ dquote # r = concat (map quoteChar t') @ dquote # r'"
      using quoteChar_prefix_code by blast+
    with Cons.IH Cons show ?thesis by blast
  qed
qed

lemma QuoteJSONString_append_eq [simp]:
  "(QuoteJSONString s @ r = QuoteJSONString t @ r') = (s = t \<and> r = r')"
  using quoted_body_inj [of s r t r'] by (auto simp: QuoteJSONString_def)

lemma QuoteJSONString_eq [simp]: "(QuoteJSONString s = QuoteJSONString t) = (s = t)"
  using QuoteJSONString_append_eq [of s "[]" t "[]"] by simp

lemma getSessionKey_inj:
  "(getSessionKey c = getSessionKey d) =
     (apiKey c = apiKey d \<and> projectId c = projectId d \<and> modelApiKey c = modelApiKey d
      \<and> contextId c = contextId d)"
  apply (cases "apiKey c"; cases "apiKey d"; cases "projectId c"; cases "projectId d";
      cases "modelApiKey c"; cases "modelApiKey d"; cases "contextId c"; cases "contextId d")
  apply (simp_all add: getSessionKey_def JSON_stringify_def json_member_def)
  done

text \<open>
  Claim C6.  The fingerprint \<open>getSessionKey\<close> is a function of the tuple (engine API key,
  engine project id, model API key, optional context id) alone: two configurations get
  the same fingerprint exactly when the four fields agree, so equal tuples yield equal
  fingerprints and a difference in any one field yields different fingerprints.
\<close>

theorem getSessionKey_deterministic_injective:
  "(getSessionKey c = getSessionKey d) =
     (apiKey c = apiKey d \<and> projectId c = projectId d \<and> modelApiKey c = modelApiKey d
      \<and> contextId c = contextId d)"
  by (rule getSessionKey_inj)

theorem getSessionKey_deterministic_injective_witness:
  "getSessionKey example_config \<noteq> getSessionKey (example_config\<lparr>contextId := Some ''ctx''\<rparr>)
   \<and> getSessionKey example_config \<noteq> getSessionKey (example_config\<lparr>apiKey := Some ''bc''\<rparr>)
   \<and> getSessionKey example_config = getSessionKey (example_config\<lparr>apiKey := Some ''bb''\<rparr>)"
  using getSessionKey_deterministic_injective [of example_config "example_config\<lparr>contextId := Some ''ctx''\<rparr>"]
    getSessionKey_deterministic_injective [of example_config "example_config\<lparr>apiKey := Some ''bc''\<rparr>"]
    getSessionKey_deterministic_injective [of example_config "example_config\<lparr>apiKey := Some ''bb''\<rparr>"]
  by (simp add: example_config_def)

section \<open>The session manager\<close>

lemma live_map_set [simp]: "live (map_set k v md) = AList.update k v (live md)"
  by (induction k v md rule: map_set.induct) auto

lemma live_map_delete [simp]: "live (map_delete k md) = AList.delete k (live md)"
  by (induction k md rule: map_delete.induct) auto

lemma live_fold_map_delete: "live (fold map_delete ks md) = fold AList.delete ks (live md)"
  by (induction ks arbitrary: md) auto

lemma live_append [simp]: "live (xs @ ys) = live xs @ live ys"
  by (induction xs rule: live.induct) auto

lemma sessions_mapData [simp]: "sessions (st\<lparr>mapData := md\<rparr>) = live md"
  by (simp add: sessions_def)

lemma sessions_closed [simp]: "sessions (st\<lparr>closed := x\<rparr>) = sessions st"
  by (simp add: sessions_def)

lemma sessions_constructed [simp]: "sessions (st\<lparr>constructed := n\<rparr>) = sessions st"
  by (simp add: sessions_def)

lemma getStagehandConfig_valid:
  "getStagehandConfig env apiKeys = Inr c \<Longrightarrow>
     truthy (apiKey c) \<and> truthy (projectId c) \<and> truthy (modelApiKey c)"
  by (auto simp: getStagehandConfig_def Let_def split: if_splits)

lemma create_session_valid:
  "truthy (apiKey c) \<and> truthy (projectId c) \<and> truthy (modelApiKey c) \<Longrightarrow>
   create_session c st = (Inr (constructed st), st\<lparr>constructed := Suc (constructed st)\<rparr>)"
  by (simp add: create_session_def)

lemma example_config_ok: "getStagehandConfig example_env example_keys = Inr example_config"
  by (simp add: getStagehandConfig_def example_env_def example_keys_def example_config_def
      apiKeys_field_def or_else_def truthy_def)

subsection \<open>Release\<close>

lemma closeSession_present:
  assumes "getStagehandConfig env apiKeys = Inr c"
    and "map_of (sessions st) (getSessionKey c) = Some r"
  shows "closeSession env apiKeys close_error st =
     (Inr (), st\<lparr>closed := closed st @ [stagehand r],
                 mapData := map_delete (getSessionKey c) (mapData st)\<rparr>)"
  using assms
  by (simp add: closeSession_def Let_def page_close_def try_ignore_def remove_session_def
      split: option.splits)

text \<open>
  Claim C7.  When the configuration is valid and the store has a record for its
  fingerprint, \<open>closeSession\<close> returns normally and the record is gone afterwards,
  whatever \<^verbatim>\<open>page.close()\<close> did (\<open>close_error\<close> may make it throw): the close was
  attempted on the record's handle, its failure is not passed on, and the records of
  other fingerprints are as before.
\<close>

theorem closeSession_removes_record:
  assumes "getStagehandConfig env apiKeys = Inr c"
    and "map_of (sessions st) (getSessionKey c) = Some r"
  shows "fst (closeSession env apiKeys close_error st) = Inr ()
    \<and> map_of (sessions (snd (closeSession env apiKeys close_error st))) (getSessionKey c) = None
    \<and> closed (snd (closeSession env apiKeys close_error st)) = closed st @ [stagehand r]
    \<and> (\<forall>k. k \<noteq> getSessionKey c \<longrightarrow>
          map_of (sessions (snd (closeSession env apiKeys close_error st))) k
            = map_of (sessions st) k)"
  unfolding closeSession_present [OF assms]
  by (simp add: AList.delete_conv sessions_def)

theorem closeSession_removes_record_witness:
  "getStagehandConfig example_env example_keys = Inr example_config
   \<and> map_of (sessions \<lparr>mapData = [Some (example_session 0 5)], constructed = 1, closed = []\<rparr>)
        (getSessionKey example_config)
       = Some \<lparr>stagehand = 0, config = example_config, lastUsed = 5\<rparr>
   \<and> fst (closeSession example_env example_keys (\<lambda>h. Some ''close failed'')
        \<lparr>mapData = [Some (example_session 0 5)], constructed = 1, closed = []\<rparr>) = Inr ()
   \<and> map_of (sessions (snd (closeSession example_env example_keys (\<lambda>h. Some ''close failed'')
        \<lparr>mapData = [Some (example_session 0 5)], constructed = 1, closed = []\<rparr>)))
        (getSessionKey example_config) = None
   \<and> closed (snd (closeSession example_env example_keys (\<lambda>h. Some ''close failed'')
        \<lparr>mapData = [Some (example_session 0 5)], constructed = 1, closed = []\<rparr>)) = [0]"
proof -
  have r: "map_of (sessions \<lparr>mapData = [Some (example_session 0 5)], constructed = 1, closed = []\<rparr>)
             (getSessionKey example_config)
           = Some \<lparr>stagehand = 0, config = example_config, lastUsed = 5\<rparr>"
    by (simp add: example_session_def sessions_def)
  from closeSession_removes_record [OF example_config_ok r, of "\<lambda>h. Some ''close failed''"]
    example_config_ok r
  show ?thesis by simp
qed

subsection \<open>Acquire\<close>

lemma getSession_probe_failed:
  assumes "getStagehandConfig env apiKeys = Inr c"
    and "map_of (sessions st) (getSessionKey c) = Some r"
    and "\<not> (page_ok w \<and> probe_result w = None)"
  shows "getSession env apiKeys w now st =
     after_init (getSessionKey c) c (constructed st) (init_result w) now
       (st\<lparr>mapData := map_delete (getSessionKey c) (mapData st),
           constructed := Suc (constructed st)\<rparr>)"
  using assms create_session_valid [OF getStagehandConfig_valid [OF assms(1)]]
  by (auto simp: getSession_def Let_def recreate_def remove_session_def)

lemma getSession_absent:
  assumes "getStagehandConfig env apiKeys = Inr c"
    and "map_of (sessions st) (getSessionKey c) = None"
  shows "getSession env apiKeys w now st =
     after_init (getSessionKey c) c (constructed st) (init_result w) now
       (st\<lparr>constructed := Suc (constructed st)\<rparr>)"
  using assms create_session_valid [OF getStagehandConfig_valid [OF assms(1)]]
  by (auto simp: getSession_def Let_def recreate_def remove_session_def)

lemma getSession_reuse:
  assumes "getStagehandConfig env apiKeys = Inr c"
    and "map_of (sessions st) (getSessionKey c) = Some r"
    and "page_ok w" and "probe_result w = None"
  shows "getSession env apiKeys w now st =
     (Inr (stagehand r),
      st\<lparr>mapData := map_set (getSessionKey c) (r\<lparr>lastUsed := now\<rparr>) (mapData st)\<rparr>)"
  using assms by (simp add: getSession_def Let_def touch_def)

text \<open>
  A task that runs alone through the steps of the interleaved machine does what
  \<open>getSession\<close> does.
\<close>

lemma run_single_task:
  "run [(0, PageCheck (page_ok w), now), (0, ProbeResult (probe_result w), now),
        (0, InitResult (init_result w), now)] ([Start env apiKeys], st)
   = ([Finished (fst (getSession env apiKeys w now st))], snd (getSession env apiKeys w now st))"
  by (auto simp: getSession_def Let_def recreate_def suspend_init_def create_session_def
      split: sum.splits option.splits prod.splits if_splits)

text \<open>After a release, the next acquire of the same configuration constructs a new instance.\<close>

lemma getSession_after_closeSession:
  assumes "getStagehandConfig env apiKeys = Inr c"
    and "map_of (sessions st) (getSessionKey c) = Some r"
  shows "getSession env apiKeys w now (snd (closeSession env apiKeys close_error st))
     = after_init (getSessionKey c) c (constructed st) (init_result w) now
         (st\<lparr>closed := closed st @ [stagehand r],
             mapData := map_delete (getSessionKey c) (mapData st),
             constructed := Suc (constructed st)\<rparr>)"
proof -
  let ?st1 = "snd (closeSession env apiKeys close_error st)"
  have st1: "?st1 = st\<lparr>closed := closed st @ [stagehand r],
                        mapData := map_delete (getSessionKey c) (mapData st)\<rparr>"
    by (simp add: closeSession_present [OF assms])
  have "map_of (sessions ?st1) (getSessionKey c) = None"
    by (simp add: st1 AList.delete_conv)
  from getSession_absent [OF assms(1) this, of w now] show ?thesis
    by (simp add: st1)
qed

subsection \<open>The keys of the store stay distinct\<close>

lemma fold_delete_filter:
  "fold AList.delete ks al = filter (\<lambda>e. fst e \<notin> set ks) al"
proof (induction ks arbitrary: al)
  case Nil
  then show ?case by simp
next
  case (Cons k ks)
  have "AList.delete k al = filter (\<lambda>e. fst e \<noteq> k) al"
    by (auto simp: AList.delete_eq intro: filter_cong)
  with Cons show ?case by (auto simp: intro: filter_cong)
qed

lemma cleanupStaleSessions_loop_distinct:
  assumes "distinct (map fst (sessions st))"
  shows "distinct (map fst (sessions (snd (cleanupStaleSessions_loop now index keys st))))"
  using assms
  by (auto simp: cleanupStaleSessions_loop_def live_fold_map_delete fold_delete_filter
      distinct_map_filter sessions_def split: option.splits)

lemma resume_distinct:
  assumes "distinct (map fst (sessions st))"
  shows "distinct (map fst (sessions (snd (resume p a now st))))"
proof (cases p)
  case (Start env apiKeys)
  with assms show ?thesis
    by (cases a)
       (auto simp: Let_def suspend_init_def create_session_def remove_session_def
          AList.distinct_delete sessions_def split: sum.splits option.splits)
next
  case (AwaitProbe key c h)
  with assms show ?thesis
    by (cases a)
       (auto simp: suspend_init_def create_session_def remove_session_def touch_def
          AList.distinct_delete AList.distinct_update sessions_def split: option.splits)
next
  case (AwaitInit key c h)
  with assms show ?thesis
    by (cases a)
       (auto simp: after_init_def AList.distinct_update sessions_def split: init_outcome.splits)
next
  case (Finished res)
  with assms show ?thesis by simp
next
  case SweepStart
  with assms show ?thesis
    by (cases a) (simp_all add: cleanupStaleSessions_loop_distinct)
next
  case (SweepAwaitClose now0 index key keys)
  with assms show ?thesis
    by (cases a) (simp_all add: cleanupStaleSessions_loop_distinct)
next
  case SweepFinished
  with assms show ?thesis by simp
qed

lemma run_distinct:
  "distinct (map fst (sessions st)) \<Longrightarrow> distinct (map fst (sessions (snd (run evs (pcs, st)))))"
proof (induction evs arbitrary: pcs st)
  case Nil
  then show ?case by simp
next
  case (Cons ev evs)
  obtain i a now where ev: "ev = (i, a, now)" by (cases ev) auto
  show ?case
  proof (cases "i < length pcs")
    case True
    obtain p st1 where r: "resume (pcs ! i) a now st = (p, st1)" by (cases "resume (pcs ! i) a now st")
    have "distinct (map fst (sessions st1))"
      using resume_distinct [OF Cons.prems, of "pcs ! i" a now] r by simp
    then show ?thesis using Cons.IH ev True r by simp
  next
    case False
    then show ?thesis using Cons ev by simp
  qed
qed

lemma closeSession_distinct:
  "distinct (map fst (sessions st)) \<Longrightarrow>
   distinct (map fst (sessions (snd (closeSession env apiKeys close_error st))))"
  by (auto simp: closeSession_def Let_def remove_session_def try_ignore_def page_close_def
      AList.distinct_delete sessions_def split: sum.splits option.splits)

subsection \<open>Schedules\<close>

lemma run_append: "run (xs @ ys) cfg = run ys (run xs cfg)"
  by (induction xs cfg rule: run.induct) (auto split: prod.splits)

lemma run_length: "length (fst (run evs (pcs, st))) = length pcs"
  by (induction evs "(pcs, st)" arbitrary: pcs st rule: run.induct) (auto split: prod.splits)

lemma run_other: "i \<notin> fst ` set evs \<Longrightarrow> fst (run evs (pcs, st)) ! i = pcs ! i"
  by (induction evs "(pcs, st)" arbitrary: pcs st rule: run.induct) (auto split: prod.splits)

lemma cleanupStaleSessions_loop_constructed:
  "constructed (snd (cleanupStaleSessions_loop now index keys st)) = constructed st"
  by (simp add: cleanupStaleSessions_loop_def split: option.splits)

lemma resume_constructed_mono: "constructed st \<le> constructed (snd (resume p a now st))"
proof (cases p)
  case (Start env apiKeys)
  then show ?thesis
    by (cases a)
       (auto simp: Let_def suspend_init_def create_session_def remove_session_def
          split: sum.splits option.splits)
next
  case (AwaitProbe key c h)
  then show ?thesis
    by (cases a)
       (auto simp: suspend_init_def create_session_def remove_session_def touch_def
          split: option.splits)
next
  case (AwaitInit key c h)
  then show ?thesis
    by (cases a) (auto simp: after_init_def split: init_outcome.splits)
next
  case (Finished res)
  then show ?thesis by simp
next
  case SweepStart
  then show ?thesis by (cases a) (simp_all add: cleanupStaleSessions_loop_constructed)
next
  case (SweepAwaitClose now0 index key keys)
  then show ?thesis by (cases a) (simp_all add: cleanupStaleSessions_loop_constructed)
next
  case SweepFinished
  then show ?thesis by simp
qed

lemma run_constructed_mono: "constructed st \<le> constructed (snd (run evs (pcs, st)))"
proof (induction evs arbitrary: pcs st)
  case Nil
  then show ?case by simp
next
  case (Cons ev evs)
  obtain i a now where ev: "ev = (i, a, now)" by (cases ev) auto
  show ?case
  proof (cases "i < length pcs")
    case True
    obtain p st1 where r: "resume (pcs ! i) a now st = (p, st1)" by (cases "resume (pcs ! i) a now st")
    have "constructed st \<le> constructed st1"
      using resume_constructed_mono [of st "pcs ! i" a now] r by simp
    also have "\<dots> \<le> constructed (snd (run evs (pcs[i := p], st1)))" by (rule Cons.IH)
    finally show ?thesis using ev True r by simp
  next
    case False
    then show ?thesis using Cons.IH ev by simp
  qed
qed

text \<open>Other tasks' steps leave a task where it is, and never take back a handle.\<close>

lemma run_others:
  assumes "i \<notin> fst ` set evs" and "i < length pcs"
  obtains pcs' st' where "run evs (pcs, st) = (pcs', st')" and "pcs' ! i = pcs ! i"
    and "i < length pcs'" and "constructed st \<le> constructed st'"
proof -
  obtain pcs' st' where r: "run evs (pcs, st) = (pcs', st')" by (cases "run evs (pcs, st)")
  have "pcs' ! i = pcs ! i" using run_other [OF assms(1), of pcs st] r by simp
  moreover have "i < length pcs'" using run_length [of evs pcs st] r assms(2) by simp
  moreover have "constructed st \<le> constructed st'"
    using run_constructed_mono [of st evs pcs] r by simp
  ultimately show ?thesis using that r by blast
qed

text \<open>The three steps of a call whose liveness check fails, from any state.\<close>

lemma resume_start_found:
  assumes "getStagehandConfig env apiKeys = Inr c"
    and "map_of (sessions st) (getSessionKey c) = Some r"
  shows "resume (Start env apiKeys) (PageCheck ok) now st =
     (if ok then (AwaitProbe (getSessionKey c) c (stagehand r), st)
      else (AwaitInit (getSessionKey c) c (constructed st),
            st\<lparr>mapData := map_delete (getSessionKey c) (mapData st),
                constructed := Suc (constructed st)\<rparr>))"
  using assms create_session_valid [OF getStagehandConfig_valid [OF assms(1)]]
  by (simp add: Let_def suspend_init_def remove_session_def)

lemma resume_probe_failed:
  assumes "truthy (apiKey c) \<and> truthy (projectId c) \<and> truthy (modelApiKey c)"
  shows "resume (AwaitProbe key c h) (ProbeResult (Some msg)) now st =
     (AwaitInit key c (constructed st),
      st\<lparr>mapData := map_delete key (mapData st), constructed := Suc (constructed st)\<rparr>)"
  using create_session_valid [OF assms]
  by (simp add: suspend_init_def remove_session_def)

lemma resume_init:
  "resume (AwaitInit key c h) (InitResult res) now st =
     (Finished (case res of InitOk \<Rightarrow> Inr h
                | InitNoPage \<Rightarrow> Inl ''Stagehand initialization completed but page object is undefined''
                | InitFails m \<Rightarrow> Inl m),
      (case res of InitOk \<Rightarrow>
         st\<lparr>mapData := map_set key \<lparr>stagehand = h, config = c, lastUsed = now\<rparr> (mapData st)\<rparr>
       | _ \<Rightarrow> st))"
  by (simp add: after_init_def split: init_outcome.splits)

lemma run_init_step:
  assumes "i < length pcs" and "pcs ! i = AwaitInit key c h"
  shows "\<exists>st'. run [(i, InitResult res, now)] (pcs, st)
       = (pcs[i := Finished (case res of InitOk \<Rightarrow> Inr h
                | InitNoPage \<Rightarrow> Inl ''Stagehand initialization completed but page object is undefined''
                | InitFails m \<Rightarrow> Inl m)], st')
    \<and> constructed st' = constructed st
    \<and> (res = InitOk \<longrightarrow> map_of (sessions st') key
           = Some \<lparr>stagehand = h, config = c, lastUsed = now\<rparr>)"
  using assms
  by (cases res) (simp_all add: after_init_def AList.update_conv')

text \<open>
  A call that found a record and whose liveness check fails, among the steps of other
  tasks: it ends as the \<^verbatim>\<open>init()\<close> of a handle constructed during the call ends.
\<close>

lemma probe_failure_schedule:
  assumes cfg: "getStagehandConfig env apiKeys = Inr c"
    and rec: "map_of (sessions st) (getSessionKey c) = Some r"
    and i: "i < length pcs" and start: "pcs ! i = Start env apiKeys"
    and m1: "i \<notin> fst ` set mid1" and m2: "i \<notin> fst ` set mid2"
  shows "\<exists>h pcs' st'.
      run ((i, PageCheck ok, t0) # mid1
             @ (if ok then (i, ProbeResult (Some msg), t1) # mid2 else [])
             @ [(i, InitResult res, t2)]) (pcs, st) = (pcs', st')
      \<and> constructed st \<le> h \<and> h < constructed st'
      \<and> pcs' ! i = Finished (case res of InitOk \<Rightarrow> Inr h
            | InitNoPage \<Rightarrow> Inl ''Stagehand initialization completed but page object is undefined''
            | InitFails m \<Rightarrow> Inl m)
      \<and> (res = InitOk \<longrightarrow> map_of (sessions st') (getSessionKey c)
            = Some \<lparr>stagehand = h, config = c, lastUsed = t2\<rparr>)"
proof -
  let ?key = "getSessionKey c"
  let ?fin = "Finished (case res of InitOk \<Rightarrow> Inr (h::nat)
            | InitNoPage \<Rightarrow> Inl ''Stagehand initialization completed but page object is undefined''
            | InitFails m \<Rightarrow> Inl m)"
  have valid: "truthy (apiKey c) \<and> truthy (projectId c) \<and> truthy (modelApiKey c)"
    by (rule getStagehandConfig_valid [OF cfg])
  have tail: "\<exists>pcs' st'. run (mid @ [(i, InitResult res, t2)]) (qs, s) = (pcs', st')
      \<and> h < constructed st'
      \<and> pcs' ! i = Finished (case res of InitOk \<Rightarrow> Inr h
            | InitNoPage \<Rightarrow> Inl ''Stagehand initialization completed but page object is undefined''
            | InitFails m \<Rightarrow> Inl m)
      \<and> (res = InitOk \<longrightarrow> map_of (sessions st') ?key
            = Some \<lparr>stagehand = h, config = c, lastUsed = t2\<rparr>)"
    if q: "i < length qs" "qs ! i = AwaitInit ?key c h" and hs: "h < constructed s"
      and m: "i \<notin> fst ` set mid"
    for mid qs s h
  proof -
    obtain qs1 s1 where r1: "run mid (qs, s) = (qs1, s1)" and p1: "qs1 ! i = qs ! i"
      and l1: "i < length qs1" and c1: "constructed s \<le> constructed s1"
      using run_others [OF m q(1)] by blast
    from p1 q(2) have "qs1 ! i = AwaitInit ?key c h" by simp
    from run_init_step [OF l1 this, of res t2 s1]
    obtain s2 where r2: "run [(i, InitResult res, t2)] (qs1, s1)
          = (qs1[i := Finished (case res of InitOk \<Rightarrow> Inr h
                | InitNoPage \<Rightarrow> Inl ''Stagehand initialization completed but page object is undefined''
                | InitFails m \<Rightarrow> Inl m)], s2)"
      and c2: "constructed s2 = constructed s1"
      and k2: "res = InitOk \<longrightarrow> map_of (sessions s2) ?key
           = Some \<lparr>stagehand = h, config = c, lastUsed = t2\<rparr>"
      by blast
    have "run (mid @ [(i, InitResult res, t2)]) (qs, s) = run [(i, InitResult res, t2)] (qs1, s1)"
      by (simp only: run_append r1)
    with r2 l1 c1 c2 hs k2 show ?thesis by simp
  qed
  show ?thesis
  proof (cases ok)
    case False
    let ?s1 = "st\<lparr>mapData := map_delete ?key (mapData st), constructed := Suc (constructed st)\<rparr>"
    let ?q1 = "pcs[i := AwaitInit ?key c (constructed st)]"
    have s1: "run [(i, PageCheck ok, t0)] (pcs, st) = (?q1, ?s1)"
      using i start resume_start_found [OF cfg rec, of False t0] False by simp
    have "i < length ?q1" "?q1 ! i = AwaitInit ?key c (constructed st)"
      "constructed st < constructed ?s1"
      using i by simp_all
    from tail [OF this m1]
    obtain pcs' st' where t: "run (mid1 @ [(i, InitResult res, t2)]) (?q1, ?s1) = (pcs', st')"
      and rest: "constructed st < constructed st'"
        "pcs' ! i = Finished (case res of InitOk \<Rightarrow> Inr (constructed st)
            | InitNoPage \<Rightarrow> Inl ''Stagehand initialization completed but page object is undefined''
            | InitFails m \<Rightarrow> Inl m)"
        "res = InitOk \<longrightarrow> map_of (sessions st') ?key
            = Some \<lparr>stagehand = constructed st, config = c, lastUsed = t2\<rparr>"
      by blast
    have "run ((i, PageCheck ok, t0) # mid1
             @ (if ok then (i, ProbeResult (Some msg), t1) # mid2 else [])
             @ [(i, InitResult res, t2)]) (pcs, st)
          = run (mid1 @ [(i, InitResult res, t2)]) (run [(i, PageCheck ok, t0)] (pcs, st))"
      using False run_append [of "[(i, PageCheck ok, t0)]" "mid1 @ [(i, InitResult res, t2)]" "(pcs, st)"]
      by simp
    with s1 t have "run ((i, PageCheck ok, t0) # mid1
             @ (if ok then (i, ProbeResult (Some msg), t1) # mid2 else [])
             @ [(i, InitResult res, t2)]) (pcs, st) = (pcs', st')" by simp
    with rest show ?thesis by (intro exI [of _ "constructed st"] exI [of _ pcs'] exI [of _ st']) simp
  next
    case True
    let ?q1 = "pcs[i := AwaitProbe ?key c (stagehand r)]"
    have s1: "run [(i, PageCheck ok, t0)] (pcs, st) = (?q1, st)"
      using i start resume_start_found [OF cfg rec, of True t0] True by simp
    have l1: "i < length ?q1" using i by simp
    obtain q2 s2 where r2: "run mid1 (?q1, st) = (q2, s2)" and p2: "q2 ! i = ?q1 ! i"
      and l2: "i < length q2" and c2: "constructed st \<le> constructed s2"
      using run_others [OF m1 l1] by blast
    have p2': "q2 ! i = AwaitProbe ?key c (stagehand r)" using p2 i by simp
    let ?s3 = "s2\<lparr>mapData := map_delete ?key (mapData s2), constructed := Suc (constructed s2)\<rparr>"
    let ?q3 = "q2[i := AwaitInit ?key c (constructed s2)]"
    have s3: "run [(i, ProbeResult (Some msg), t1)] (q2, s2) = (?q3, ?s3)"
      using l2 p2' resume_probe_failed [OF valid, of ?key "stagehand r" msg t1 s2] by simp
    have "i < length ?q3" "?q3 ! i = AwaitInit ?key c (constructed s2)"
      "constructed s2 < constructed ?s3"
      using l2 by simp_all
    from tail [OF this m2]
    obtain pcs' st' where t: "run (mid2 @ [(i, InitResult res, t2)]) (?q3, ?s3) = (pcs', st')"
      and rest: "constructed s2 < constructed st'"
        "pcs' ! i = Finished (case res of InitOk \<Rightarrow> Inr (constructed s2)
            | InitNoPage \<Rightarrow> Inl ''Stagehand initialization completed but page object is undefined''
            | InitFails m \<Rightarrow> Inl m)"
        "res = InitOk \<longrightarrow> map_of (sessions st') ?key
            = Some \<lparr>stagehand = constructed s2, config = c, lastUsed = t2\<rparr>"
      by blast
    have "(i, PageCheck ok, t0) # mid1
             @ (if ok then (i, ProbeResult (Some msg), t1) # mid2 else [])
             @ [(i, InitResult res, t2)]
          = [(i, PageCheck ok, t0)] @ mid1 @ [(i, ProbeResult (Some msg), t1)]
              @ (mid2 @ [(i, InitResult res, t2)])"
      using True by simp
    moreover have "run [(i, InitResult res, t2)] (run mid2 (?q3, ?s3)) = (pcs', st')"
      using t by (simp only: run_append)
    ultimately have "run ((i, PageCheck ok, t0) # mid1
             @ (if ok then (i, ProbeResult (Some msg), t1) # mid2 else [])
             @ [(i, InitResult res, t2)]) (pcs, st) = (pcs', st')"
      by (simp only: run_append s1 r2 s3)
    with rest c2 show ?thesis by (intro exI [of _ "constructed s2"] exI [of _ pcs'] exI [of _ st']) simp
  qed
qed

text \<open>
  Claim C2, as the code has it.  A \<open>getSession\<close> call finds a record for its fingerprint and
  its liveness check fails: the page is missing, or the probe rejects with any message
  at all.  Whatever other tasks do in between, the call never rethrows that failure and
  never looks at its message: in the step that sees the failure it deletes the entry
  under the fingerprint and constructs one new \<^verbatim>\<open>Stagehand\<close>, and it ends as the new
  instance's \<^verbatim>\<open>init()\<close> ends, with the new handle, installed under the fingerprint, or
  with the error of the initialisation.  When no other task runs during the call, that
  is the only construction, and a failed initialisation leaves no record under the
  fingerprint.
\<close>

theorem getSession_probe_failure_recreates:
  assumes "getStagehandConfig env apiKeys = Inr c"
    and "map_of (sessions st) (getSessionKey c) = Some r"
    and "i < length pcs" and "pcs ! i = Start env apiKeys"
    and "i \<notin> fst ` set mid1" and "i \<notin> fst ` set mid2"
  shows "(\<exists>h pcs' st'.
      run ((i, PageCheck ok, t0) # mid1
             @ (if ok then (i, ProbeResult (Some msg), t1) # mid2 else [])
             @ [(i, InitResult res, t2)]) (pcs, st) = (pcs', st')
      \<and> constructed st \<le> h \<and> h < constructed st'
      \<and> pcs' ! i = Finished (case res of InitOk \<Rightarrow> Inr h
            | InitNoPage \<Rightarrow> Inl ''Stagehand initialization completed but page object is undefined''
            | InitFails m \<Rightarrow> Inl m)
      \<and> (res = InitOk \<longrightarrow> map_of (sessions st') (getSessionKey c)
            = Some \<lparr>stagehand = h, config = c, lastUsed = t2\<rparr>))
    \<and> resume (Start env apiKeys) (PageCheck False) t0 st
        = (AwaitInit (getSessionKey c) c (constructed st),
           st\<lparr>mapData := map_delete (getSessionKey c) (mapData st),
               constructed := Suc (constructed st)\<rparr>)
    \<and> (\<forall>s h0. resume (AwaitProbe (getSessionKey c) c h0) (ProbeResult (Some msg)) t1 s
        = (AwaitInit (getSessionKey c) c (constructed s),
           s\<lparr>mapData := map_delete (getSessionKey c) (mapData s),
              constructed := Suc (constructed s)\<rparr>))
    \<and> (\<not> (page_ok w \<and> probe_result w = None) \<longrightarrow>
         constructed (snd (getSession env apiKeys w now st)) = Suc (constructed st)
         \<and> (init_result w = InitOk \<longrightarrow>
              fst (getSession env apiKeys w now st) = Inr (constructed st)
              \<and> map_of (sessions (snd (getSession env apiKeys w now st))) (getSessionKey c)
                  = Some \<lparr>stagehand = constructed st, config = c, lastUsed = now\<rparr>)
         \<and> (init_result w = InitNoPage \<longrightarrow>
              fst (getSession env apiKeys w now st)
                = Inl ''Stagehand initialization completed but page object is undefined''
              \<and> map_of (sessions (snd (getSession env apiKeys w now st))) (getSessionKey c) = None)
         \<and> (\<forall>m. init_result w = InitFails m \<longrightarrow>
              fst (getSession env apiKeys w now st) = Inl m
              \<and> map_of (sessions (snd (getSession env apiKeys w now st))) (getSessionKey c) = None))"
proof (intro conjI impI)
  show "\<exists>h pcs' st'.
      run ((i, PageCheck ok, t0) # mid1
             @ (if ok then (i, ProbeResult (Some msg), t1) # mid2 else [])
             @ [(i, InitResult res, t2)]) (pcs, st) = (pcs', st')
      \<and> constructed st \<le> h \<and> h < constructed st'
      \<and> pcs' ! i = Finished (case res of InitOk \<Rightarrow> Inr h
            | InitNoPage \<Rightarrow> Inl ''Stagehand initialization completed but page object is undefined''
            | InitFails m \<Rightarrow> Inl m)
      \<and> (res = InitOk \<longrightarrow> map_of (sessions st') (getSessionKey c)
            = Some \<lparr>stagehand = h, config = c, lastUsed = t2\<rparr>)"
    by (rule probe_failure_schedule [OF assms])
next
  show "resume (Start env apiKeys) (PageCheck False) t0 st
        = (AwaitInit (getSessionKey c) c (constructed st),
           st\<lparr>mapData := map_delete (getSessionKey c) (mapData st),
               constructed := Suc (constructed st)\<rparr>)"
    using resume_start_found [OF assms(1,2), of False t0] by simp
next
  show "\<forall>s h0. resume (AwaitProbe (getSessionKey c) c h0) (ProbeResult (Some msg)) t1 s
        = (AwaitInit (getSessionKey c) c (constructed s),
           s\<lparr>mapData := map_delete (getSessionKey c) (mapData s),
              constructed := Suc (constructed s)\<rparr>)"
    using resume_probe_failed [OF getStagehandConfig_valid [OF assms(1)]] by blast
next
  assume f: "\<not> (page_ok w \<and> probe_result w = None)"
  note g = getSession_probe_failed [OF assms(1,2) f, of now]
  show "constructed (snd (getSession env apiKeys w now st)) = Suc (constructed st)"
    unfolding g by (simp add: after_init_def split: init_outcome.splits)
  show "\<forall>m. init_result w = InitFails m \<longrightarrow>
              fst (getSession env apiKeys w now st) = Inl m
              \<and> map_of (sessions (snd (getSession env apiKeys w now st))) (getSessionKey c) = None"
    unfolding g by (simp add: after_init_def AList.delete_conv)
  {
    assume "init_result w = InitOk"
    then show "fst (getSession env apiKeys w now st) = Inr (constructed st)"
      and "map_of (sessions (snd (getSession env apiKeys w now st))) (getSessionKey c)
                  = Some \<lparr>stagehand = constructed st, config = c, lastUsed = now\<rparr>"
      unfolding g by (simp_all add: after_init_def AList.update_conv')
  }
  {
    assume "init_result w = InitNoPage"
    then show "fst (getSession env apiKeys w now st)
                = Inl ''Stagehand initialization completed but page object is undefined''"
      and "map_of (sessions (snd (getSession env apiKeys w now st))) (getSessionKey c) = None"
      unfolding g by (simp_all add: after_init_def AList.delete_conv)
  }
qed

theorem getSession_probe_failure_recreates_witness:
  "getStagehandConfig example_env example_keys = Inr example_config
   \<and> map_of (sessions \<lparr>mapData = [Some (example_session 0 0)], constructed = 1, closed = []\<rparr>)
        (getSessionKey example_config)
       = Some \<lparr>stagehand = 0, config = example_config, lastUsed = 0\<rparr>
   \<and> (0::nat) \<notin> fst ` set [(1::nat, PageCheck True, 1::int)]
   \<and> (\<exists>h pcs' st'.
        run [(0, PageCheck True, 0), (1, PageCheck True, 1),
             (0, ProbeResult (Some ''Session expired''), 2), (0, InitResult InitOk, 3)]
          ([Start example_env example_keys, Start example_env example_keys],
           \<lparr>mapData = [Some (example_session 0 0)], constructed = 1, closed = []\<rparr>) = (pcs', st')
        \<and> 1 \<le> h \<and> h < constructed st' \<and> pcs' ! 0 = Finished (Inr h)
        \<and> map_of (sessions st') (getSessionKey example_config)
            = Some \<lparr>stagehand = h, config = example_config, lastUsed = 3\<rparr>)"
proof -
  let ?st = "\<lparr>mapData = [Some (example_session 0 0)], constructed = 1, closed = []\<rparr>"
  let ?pcs = "[Start example_env example_keys, Start example_env example_keys]"
  have r: "map_of (sessions ?st) (getSessionKey example_config)
           = Some \<lparr>stagehand = 0, config = example_config, lastUsed = 0\<rparr>"
    by (simp add: example_session_def sessions_def)
  have i: "0 < length ?pcs" and s: "?pcs ! 0 = Start example_env example_keys" by simp_all
  have m1: "(0::nat) \<notin> fst ` set [(1::nat, PageCheck True, 1::int)]"
    and m2: "(0::nat) \<notin> fst ` set ([] :: (nat \<times> answer \<times> int) list)" by simp_all
  from getSession_probe_failure_recreates [OF example_config_ok r i s m1 m2,
      of True 0 "''Session expired''" 2 InitOk 3]
  have "\<exists>h pcs' st'.
        run [(0, PageCheck True, 0), (1, PageCheck True, 1),
             (0, ProbeResult (Some ''Session expired''), 2), (0, InitResult InitOk, 3)]
          (?pcs, ?st) = (pcs', st')
        \<and> 1 \<le> h \<and> h < constructed st' \<and> pcs' ! 0 = Finished (Inr h)
        \<and> map_of (sessions st') (getSessionKey example_config)
            = Some \<lparr>stagehand = h, config = example_config, lastUsed = 3\<rparr>"
    by simp
  with example_config_ok r m1 show ?thesis by blast
qed

text \<open>
  Claim C2, as the specification words it, fails: the message \<open>boom\<close> is not in the
  ``resource gone'' class, yet the call does not rethrow it; it constructs a second
  \<^verbatim>\<open>Stagehand\<close> and returns it.
\<close>

theorem getSession_probe_failure_counterexample:
  "\<not> isResourceGone ''boom''
   \<and> getSession example_env example_keys (example_world True (Some ''boom'') InitOk) 7
        \<lparr>mapData = [Some (example_session 0 0)], constructed = 1, closed = []\<rparr>
     = (Inr 1, \<lparr>mapData = [None, Some (example_session 1 7)], constructed = 2, closed = []\<rparr>)"
  by code_simp

text \<open>
  Claim C1, as the code has it.  Two \<open>getSession\<close> calls have the same fingerprint, the
  store has no record for it, and no other task runs.  When the second call starts only
  after the first has finished, and the first call's \<^verbatim>\<open>init()\<close> and the second call's
  probe succeed, one \<^verbatim>\<open>Stagehand\<close> is constructed and both callers get its handle, that
  of the one record under the fingerprint.  When both calls start before either
  \<^verbatim>\<open>init()\<close> has settled, and both succeed, two are constructed, the callers get
  distinct handles, and the record under the fingerprint is that of the call whose
  \<^verbatim>\<open>init()\<close> settled last.  And under every schedule the store keeps one record per
  fingerprint at most.
\<close>

theorem getSession_sequential_single_construction:
  assumes "getStagehandConfig env k1 = Inr c1"
    and "getStagehandConfig env k2 = Inr c2"
    and "getSessionKey c1 = getSessionKey c2"
    and "map_of (sessions st) (getSessionKey c1) = None"
  shows "(\<exists>st'. run [(0, PageCheck b, t0), (0, InitResult InitOk, t1),
                     (1, PageCheck True, t2), (1, ProbeResult None, t3)]
                    ([Start env k1, Start env k2], st)
                = ([Finished (Inr (constructed st)), Finished (Inr (constructed st))], st')
              \<and> constructed st' = Suc (constructed st)
              \<and> map_of (sessions st') (getSessionKey c1)
                  = Some \<lparr>stagehand = constructed st, config = c1, lastUsed = t3\<rparr>)
    \<and> (\<exists>st'. run [(0, PageCheck b, t0), (1, PageCheck b', t1),
                     (0, InitResult InitOk, t2), (1, InitResult InitOk, t3)]
                    ([Start env k1, Start env k2], st)
                = ([Finished (Inr (constructed st)), Finished (Inr (Suc (constructed st)))], st')
              \<and> constructed st' = Suc (Suc (constructed st))
              \<and> map_of (sessions st') (getSessionKey c1)
                  = Some \<lparr>stagehand = Suc (constructed st), config = c2, lastUsed = t3\<rparr>)
    \<and> (\<exists>st'. run [(0, PageCheck b, t0), (1, PageCheck b', t1),
                     (1, InitResult InitOk, t2), (0, InitResult InitOk, t3)]
                    ([Start env k1, Start env k2], st)
                = ([Finished (Inr (constructed st)), Finished (Inr (Suc (constructed st)))], st')
              \<and> constructed st' = Suc (Suc (constructed st))
              \<and> map_of (sessions st') (getSessionKey c1)
                  = Some \<lparr>stagehand = constructed st, config = c1, lastUsed = t3\<rparr>)
    \<and> (\<forall>evs pcs. distinct (map fst (sessions st)) \<longrightarrow>
          distinct (map fst (sessions (snd (run evs (pcs, st))))))"
proof -
  have v1: "\<And>s. create_session c1 s = (Inr (constructed s), s\<lparr>constructed := Suc (constructed s)\<rparr>)"
    by (rule create_session_valid [OF getStagehandConfig_valid [OF assms(1)]])
  have v2: "\<And>s. create_session c2 s = (Inr (constructed s), s\<lparr>constructed := Suc (constructed s)\<rparr>)"
    by (rule create_session_valid [OF getStagehandConfig_valid [OF assms(2)]])
  have k: "getSessionKey c2 = getSessionKey c1" using assms(3) by simp
  have a: "map_of (live (mapData st)) (getSessionKey c1) = None"
    using assms(4) by (simp add: sessions_def)
  have seq: "\<exists>st'. run [(0, PageCheck b, t0), (0, InitResult InitOk, t1),
                     (1, PageCheck True, t2), (1, ProbeResult None, t3)]
                    ([Start env k1, Start env k2], st)
                = ([Finished (Inr (constructed st)), Finished (Inr (constructed st))], st')
              \<and> constructed st' = Suc (constructed st)
              \<and> map_of (sessions st') (getSessionKey c1)
                  = Some \<lparr>stagehand = constructed st, config = c1, lastUsed = t3\<rparr>"
    using assms(1,2) k a v1
    by (simp add: Let_def suspend_init_def after_init_def touch_def AList.update_conv' sessions_def)
  have ov1: "\<exists>st'. run [(0, PageCheck b, t0), (1, PageCheck b', t1),
                     (0, InitResult InitOk, t2), (1, InitResult InitOk, t3)]
                    ([Start env k1, Start env k2], st)
                = ([Finished (Inr (constructed st)), Finished (Inr (Suc (constructed st)))], st')
              \<and> constructed st' = Suc (Suc (constructed st))
              \<and> map_of (sessions st') (getSessionKey c1)
                  = Some \<lparr>stagehand = Suc (constructed st), config = c2, lastUsed = t3\<rparr>"
    using assms(1,2) k a v1 v2
    by (simp add: Let_def suspend_init_def after_init_def AList.update_conv' sessions_def)
  have ov2: "\<exists>st'. run [(0, PageCheck b, t0), (1, PageCheck b', t1),
                     (1, InitResult InitOk, t2), (0, InitResult InitOk, t3)]
                    ([Start env k1, Start env k2], st)
                = ([Finished (Inr (constructed st)), Finished (Inr (Suc (constructed st)))], st')
              \<and> constructed st' = Suc (Suc (constructed st))
              \<and> map_of (sessions st') (getSessionKey c1)
                  = Some \<lparr>stagehand = constructed st, config = c1, lastUsed = t3\<rparr>"
    using assms(1,2) k a v1 v2
    by (simp add: Let_def suspend_init_def after_init_def AList.update_conv' sessions_def)
  from seq ov1 ov2 run_distinct show ?thesis by blast
qed

theorem getSession_sequential_single_construction_witness:
  "getStagehandConfig example_env example_keys = Inr example_config
   \<and> map_of (sessions new_SessionManager) (getSessionKey example_config) = None
   \<and> (\<exists>st'. run [(0, PageCheck True, 0), (0, InitResult InitOk, 1),
                  (1, PageCheck True, 2), (1, ProbeResult None, 3)]
                 ([Start example_env example_keys, Start example_env example_keys],
                  new_SessionManager)
             = ([Finished (Inr (constructed new_SessionManager)),
                 Finished (Inr (constructed new_SessionManager))], st')
           \<and> constructed st' = Suc (constructed new_SessionManager)
           \<and> map_of (sessions st') (getSessionKey example_config)
               = Some \<lparr>stagehand = constructed new_SessionManager, config = example_config,
                        lastUsed = 3\<rparr>)
   \<and> (\<exists>st'. run [(0, PageCheck True, 0), (1, PageCheck True, 1),
                  (0, InitResult InitOk, 2), (1, InitResult InitOk, 3)]
                 ([Start example_env example_keys, Start example_env example_keys],
                  new_SessionManager)
             = ([Finished (Inr (constructed new_SessionManager)),
                 Finished (Inr (Suc (constructed new_SessionManager)))], st')
           \<and> constructed st' = Suc (Suc (constructed new_SessionManager))
           \<and> map_of (sessions st') (getSessionKey example_config)
               = Some \<lparr>stagehand = Suc (constructed new_SessionManager), config = example_config,
                        lastUsed = 3\<rparr>)"
proof -
  have n: "map_of (sessions new_SessionManager) (getSessionKey example_config) = None"
    by (simp add: new_SessionManager_def sessions_def)
  from getSession_sequential_single_construction
         [OF example_config_ok example_config_ok refl n, of True 0 1 2 3 True]
    example_config_ok n
  show ?thesis by blast
qed

text \<open>
  Claim C1, as the specification words it, fails.  Two calls with the same fingerprint
  start while the store is empty, each before the other's \<^verbatim>\<open>init()\<close> has settled: both
  see no record, two \<^verbatim>\<open>Stagehand\<close> objects are constructed, the callers get the distinct
  handles 0 and 1, and the second installation replaces the first record.
\<close>

theorem getSession_interleaved_counterexample:
  "run [(0, PageCheck True, 0), (1, PageCheck True, 0),
        (0, InitResult InitOk, 1), (1, InitResult InitOk, 2)]
       ([Start example_env example_keys, Start example_env example_keys], new_SessionManager)
   = ([Finished (Inr 0), Finished (Inr 1)],
      \<lparr>mapData = [Some (example_session 1 2)], constructed = 2, closed = []\<rparr>)"
  by code_simp

subsection \<open>The sweep\<close>

lemma distinct_keys_filter:
  assumes "distinct (map fst al)"
  shows "filter (\<lambda>e. fst e \<notin> fst ` set (filter P al)) al = filter (\<lambda>e. \<not> P e) al"
proof (rule filter_cong [OF refl])
  fix e assume e: "e \<in> set al"
  show "(fst e \<notin> fst ` set (filter P al)) = (\<not> P e)"
  proof
    assume "fst e \<notin> fst ` set (filter P al)"
    with e show "\<not> P e" by force
  next
    assume n: "\<not> P e"
    show "fst e \<notin> fst ` set (filter P al)"
    proof
      assume "fst e \<in> fst ` set (filter P al)"
      then obtain e' where e': "e' \<in> set al" "P e'" "fst e' = fst e" by auto
      with assms e have "e' = e"
        by (metis eq_key_imp_eq_value prod.collapse)
      with n e' show False by simp
    qed
  qed
qed

text \<open>The loop at an index: past an entry that is empty or fresh, at a stale entry, at the end.\<close>

lemma loop_skip:
  assumes "mapData st = pre @ x # es"
    and "x = None \<or> (\<exists>e. x = Some e \<and> \<not> stale now e)"
  shows "cleanupStaleSessions_loop now (length pre) keys st
           = cleanupStaleSessions_loop now (length (pre @ [x])) keys st"
  using assms by (auto simp: cleanupStaleSessions_loop_def stale_def)

lemma loop_stale:
  assumes "mapData st = pre @ Some e # es" and "stale now e"
  shows "cleanupStaleSessions_loop now (length pre) keys st
           = (SweepAwaitClose now (length (pre @ [Some e])) (fst e) keys,
              st\<lparr>closed := closed st @ [stagehand (snd e)]\<rparr>)"
  using assms by (simp add: cleanupStaleSessions_loop_def stale_def split: prod.splits)

lemma loop_end:
  assumes "mapData st = pre"
  shows "cleanupStaleSessions_loop now (length pre) keys st
           = (SweepFinished, st\<lparr>mapData := fold map_delete keys (mapData st)\<rparr>)"
  using assms by (simp add: cleanupStaleSessions_loop_def)

text \<open>
  The sweep from an index on, with no other task in between: one answer for each stale
  entry that is left takes it to its end.
\<close>

lemma sweep_alone:
  assumes "mapData st = pre @ suf" and "i < length pcs"
    and "length rs = length (filter (stale now) (live suf))"
  shows "run (map (\<lambda>(r, t). (i, CloseResult r, t)) rs)
           (pcs[i := fst (cleanupStaleSessions_loop now (length pre) keys st)],
            snd (cleanupStaleSessions_loop now (length pre) keys st))
      = (pcs[i := SweepFinished],
         st\<lparr>closed := closed st @ map (\<lambda>e. stagehand (snd e)) (filter (stale now) (live suf)),
             mapData := fold map_delete (keys @ map fst (filter (stale now) (live suf)))
                          (mapData st)\<rparr>)"
  using assms
proof (induction suf arbitrary: pre keys st rs)
  case Nil
  then show ?case by (simp add: loop_end)
next
  case (Cons x es)
  have md: "mapData st = (pre @ [x]) @ es" using Cons.prems(1) by simp
  show ?case
  proof (cases "x = None \<or> (\<exists>e. x = Some e \<and> \<not> stale now e)")
    case True
    then have same: "filter (stale now) (live (x # es)) = filter (stale now) (live es)" by auto
    from Cons.IH [OF md Cons.prems(2), of rs keys] Cons.prems(3) same
    show ?thesis
      unfolding loop_skip [OF Cons.prems(1) True] by simp
  next
    case False
    then obtain e where x: "x = Some e" and s: "stale now e" by (cases x) auto
    from Cons.prems(3) x s obtain r t rs' where rs: "rs = (r, t) # rs'"
      and l: "length rs' = length (filter (stale now) (live es))"
      by (cases rs) auto
    let ?st1 = "st\<lparr>closed := closed st @ [stagehand (snd e)]\<rparr>"
    have md1: "mapData ?st1 = (pre @ [x]) @ es" using md by simp
    have step: "run (map (\<lambda>(r, t). (i, CloseResult r, t)) rs)
           (pcs[i := fst (cleanupStaleSessions_loop now (length pre) keys st)],
            snd (cleanupStaleSessions_loop now (length pre) keys st))
        = run (map (\<lambda>(r, t). (i, CloseResult r, t)) rs')
           (pcs[i := fst (cleanupStaleSessions_loop now (length (pre @ [x])) (keys @ [fst e]) ?st1)],
            snd (cleanupStaleSessions_loop now (length (pre @ [x])) (keys @ [fst e]) ?st1))"
      using Cons.prems(1,2) x s rs
      by (simp add: loop_stale [where es = es] split: prod.splits)
    from Cons.IH [OF md1 Cons.prems(2) l, of "keys @ [fst e]"] x s
    show ?thesis unfolding step by simp
  qed
qed

text \<open>
  Claim C5, as the code has it.  The sweep is a task that reads the clock once, at its
  start, and waits for \<^verbatim>\<open>page.close()\<close> once for each record it finds stale.  From every
  store (a \<^verbatim>\<open>Map\<close>, so its keys are distinct), when no other task runs during the sweep,
  it ends, whatever the close calls answer (\<open>rs\<close> may make any of them, or all of them,
  fail), having left exactly the records that fail the test
  \<open>now - lastUsed > sessionTimeout\<close>, unchanged and in their order, having called
  \<^verbatim>\<open>page.close()\<close> on exactly the handles of the records that pass it, and having
  constructed nothing.
\<close>

theorem cleanupStaleSessions_exact:
  assumes "distinct (map fst (sessions st))"
    and "i < length pcs" and "pcs ! i = SweepStart"
    and "length rs = length (filter (\<lambda>e. now - lastUsed (snd e) > sessionTimeout) (sessions st))"
  shows "\<exists>st'. run ((i, Go, now) # map (\<lambda>(r, t). (i, CloseResult r, t)) rs) (pcs, st)
                 = (pcs[i := SweepFinished], st')
    \<and> sessions st' = filter (\<lambda>e. \<not> now - lastUsed (snd e) > sessionTimeout) (sessions st)
    \<and> closed st' = closed st @ map (\<lambda>e. stagehand (snd e))
                        (filter (\<lambda>e. now - lastUsed (snd e) > sessionTimeout) (sessions st))
    \<and> constructed st' = constructed st"
proof -
  have s: "stale now = (\<lambda>e. now - lastUsed (snd e) > sessionTimeout)"
    by (simp add: stale_def fun_eq_iff)
  let ?stale = "filter (stale now) (sessions st)"
  let ?st' = "st\<lparr>closed := closed st @ map (\<lambda>e. stagehand (snd e)) ?stale,
                 mapData := fold map_delete ([] @ map fst ?stale) (mapData st)\<rparr>"
  have l: "length rs = length (filter (stale now) (live (mapData st)))"
    using assms(4) by (simp add: s sessions_def)
  have "run ((i, Go, now) # map (\<lambda>(r, t). (i, CloseResult r, t)) rs) (pcs, st)
      = run (map (\<lambda>(r, t). (i, CloseResult r, t)) rs)
          (pcs[i := fst (cleanupStaleSessions_loop now (length ([] :: (string \<times> StagehandSession) option list)) [] st)],
           snd (cleanupStaleSessions_loop now (length ([] :: (string \<times> StagehandSession) option list)) [] st))"
    using assms(2,3) by (simp split: prod.splits)
  also have "\<dots> = (pcs[i := SweepFinished], ?st')"
    using sweep_alone [of st "[]" "mapData st" i pcs rs now "[]"] assms(2) l
    by (simp add: sessions_def)
  finally have r: "run ((i, Go, now) # map (\<lambda>(r, t). (i, CloseResult r, t)) rs) (pcs, st)
      = (pcs[i := SweepFinished], ?st')" .
  have "sessions ?st' = filter (\<lambda>e. \<not> stale now e) (sessions st)"
    using distinct_keys_filter [OF assms(1), of "stale now"]
    by (simp add: live_fold_map_delete fold_delete_filter sessions_def)
  with r show ?thesis by (intro exI [of _ ?st']) (simp add: s)
qed

theorem cleanupStaleSessions_exact_witness:
  "distinct (map fst (sessions
       \<lparr>mapData = [Some (''k1'', \<lparr>stagehand = 0, config = example_config, lastUsed = 0\<rparr>), None,
                    Some (''k2'', \<lparr>stagehand = 1, config = example_config, lastUsed = 200000\<rparr>)],
         constructed = 2, closed = []\<rparr>))
   \<and> (\<exists>st'. run [(0, Go, 400000), (0, CloseResult (Some ''close failed''), 400001)]
          ([SweepStart],
           \<lparr>mapData = [Some (''k1'', \<lparr>stagehand = 0, config = example_config, lastUsed = 0\<rparr>), None,
                        Some (''k2'', \<lparr>stagehand = 1, config = example_config, lastUsed = 200000\<rparr>)],
             constructed = 2, closed = []\<rparr>) = ([SweepFinished], st')
        \<and> sessions st' = [(''k2'', \<lparr>stagehand = 1, config = example_config, lastUsed = 200000\<rparr>)]
        \<and> closed st' = [0] \<and> constructed st' = 2)"
proof -
  let ?st = "\<lparr>mapData = [Some (''k1'', \<lparr>stagehand = 0, config = example_config, lastUsed = 0\<rparr>), None,
                    Some (''k2'', \<lparr>stagehand = 1, config = example_config, lastUsed = 200000\<rparr>)],
         constructed = 2, closed = []\<rparr>"
  have d: "distinct (map fst (sessions ?st))" by (simp add: sessions_def)
  have i: "0 < length [SweepStart]" and p: "[SweepStart] ! 0 = SweepStart" by simp_all
  have l: "length [(Some ''close failed'', 400001::int)]
      = length (filter (\<lambda>e. 400000 - lastUsed (snd e) > sessionTimeout) (sessions ?st))"
    by (simp add: sessions_def sessionTimeout_def)
  from cleanupStaleSessions_exact [OF d i p l] d
  show ?thesis by (simp add: sessions_def sessionTimeout_def)
qed

text \<open>
  Claim C5, as the specification words it, fails when an acquire overlaps the sweep.
  The sweep finds the record of handle 0 stale and waits for its close; meanwhile a
  \<open>getSession\<close> call for the same fingerprint sees its probe fail, deletes the record and
  installs a fresh one with handle 1, last used after the sweep's clock value; the sweep
  then deletes by key.  The fresh record, which was never stale, is removed, its handle
  has gone to the caller and was never closed.
\<close>

theorem cleanupStaleSessions_overlap_counterexample:
  "run [(0, Go, 400000), (1, PageCheck True, 400001),
        (1, ProbeResult (Some ''Target page, context or browser has been closed''), 400002),
        (1, InitResult InitOk, 400003), (0, CloseResult None, 400004)]
       ([SweepStart, Start example_env example_keys],
        \<lparr>mapData = [Some (example_session 0 0)], constructed = 1, closed = []\<rparr>)
   = ([SweepFinished, Finished (Inr 1)],
      \<lparr>mapData = [None, None], constructed = 2, closed = [0]\<rparr>)"
  by code_simp

section \<open>The dispatcher\<close>

text \<open>
  Claim C3, as the code has it.  For a \<^verbatim>\<open>CallTool\<close> request whose tool name is absent,
  empty or not among \<^verbatim>\<open>TOOLS\<close>, the handler throws inside its outer \<^verbatim>\<open>try\<close> and so
  returns the object \<^verbatim>\<open>{error: {code: -32603, message}}\<close>, whose message is
  \<^verbatim>\<open>Internal error: Invalid tool name: \<close> followed by the name (\<^verbatim>\<open>undefined\<close> when
  absent).  It is not the \<^verbatim>\<open>isError\<close> envelope, and no session is acquired.
\<close>

theorem callTool_invalid_name_error_object:
  assumes "\<not> truthy name \<or> template name \<notin> set TOOLS"
  shows "callTool TOOLS handleToolCall sanitize operationLogs env apiKeys w now name arguments st
           = (ErrorObject (- 32603) (''Internal error: Invalid tool name: '' @ template name), st)
    \<and> \<not> isError (fst (callTool TOOLS handleToolCall sanitize operationLogs env apiKeys w now
                           name arguments st))"
  using assms by (auto simp: callTool_def internal_error_def isError_def)

theorem callTool_invalid_name_error_object_witness:
  "\<not> truthy None
   \<and> callTool [''stagehand_navigate''] (\<lambda>n a h. Inr a) Inr [] example_env example_keys
        (example_world True None InitOk) 0 None () new_SessionManager
     = (ErrorObject (- 32603) ''Internal error: Invalid tool name: undefined'' :: unit envelope,
        new_SessionManager)"
  using callTool_invalid_name_error_object [of None "[''stagehand_navigate'']" "\<lambda>n a h. Inr a" Inr
      "[]" example_env example_keys "example_world True None InitOk" 0 "()" new_SessionManager]
  by (simp add: truthy_def template_def)

text \<open>
  Claim C3, as the specification words it, fails: for the unknown name \<open>bogus\<close> the
  response is not tagged \<^verbatim>\<open>isError\<close>; it is the error object with the numeric code.
\<close>

theorem callTool_invalid_name_counterexample:
  "''bogus'' \<notin> set [''stagehand_navigate'']
   \<and> \<not> isError (fst (callTool [''stagehand_navigate''] (\<lambda>n a h. Inr a) Inr [] example_env
          example_keys (example_world True None InitOk) 0 (Some ''bogus'') ()
          new_SessionManager) :: unit envelope)
   \<and> fst (callTool [''stagehand_navigate''] (\<lambda>n a h. Inr a) Inr [] example_env
          example_keys (example_world True None InitOk) 0 (Some ''bogus'') ()
          new_SessionManager)
       = (ErrorObject (- 32603) ''Internal error: Invalid tool name: bogus'' :: unit envelope)"
  by (simp add: callTool_def internal_error_def isError_def truthy_def template_def)

text \<open>A failure of the tool, or of the treatment of its result, comes back in the \<^verbatim>\<open>isError\<close> envelope.\<close>

lemma callTool_tool_failure:
  assumes "truthy name" and "template name \<in> set TOOLS"
    and "getSession env apiKeys w now st = (Inr h, st1)"
    and "handleToolCall (template name) arguments h = Inl msg"
  shows "callTool TOOLS handleToolCall sanitize operationLogs env apiKeys w now name arguments st
           = (tool_failure msg operationLogs, st1)
    \<and> isError (fst (callTool TOOLS handleToolCall sanitize operationLogs env apiKeys w now
                         name arguments st))"
  using assms by (simp add: callTool_def isError_def tool_failure_def)

lemma callTool_sanitize_failure:
  assumes "truthy name" and "template name \<in> set TOOLS"
    and "getSession env apiKeys w now st = (Inr h, st1)"
    and "handleToolCall (template name) arguments h = Inr result"
    and "sanitize result = Inl msg"
  shows "callTool TOOLS handleToolCall sanitize operationLogs env apiKeys w now name arguments st
           = (tool_failure msg operationLogs, st1)"
  using assms by (simp add: callTool_def)

section \<open>The connection registry\<close>

text \<open>
  Claim C4, as the code has it.  A stream that opens with all three keys and connects
  with a session id that is not empty is registered by a plain assignment: the registry
  maps the id to the new entry afterwards, whether or not the id was there before, and
  every other id is as before.  There is no check for a collision and no failure.
\<close>

theorem sse_get_register_replaces:
  assumes "truthy (browserbaseApiKey (extractApiKeys req))"
    and "truthy (browserbaseProjectId (extractApiKeys req))"
    and "truthy (openaiApiKey (extractApiKeys req))"
    and "sessionId \<noteq> []"
  shows "sse_get req (Inr (Some sessionId)) entry reg = (EventStream, reg(sessionId \<mapsto> entry))"
  using assms by (simp add: sse_get_def truthy_def template_def)

theorem sse_get_register_replaces_witness:
  "truthy (browserbaseApiKey (extractApiKeys example_request))
   \<and> truthy (browserbaseProjectId (extractApiKeys example_request))
   \<and> truthy (openaiApiKey (extractApiKeys example_request))
   \<and> sse_get example_request (Inr (Some ''abc'')) (7::nat) (\<lambda>k. None)
       = (EventStream, [''abc'' \<mapsto> 7])"
proof -
  have a: "truthy (browserbaseApiKey (extractApiKeys example_request))"
    and p: "truthy (browserbaseProjectId (extractApiKeys example_request))"
    and k: "truthy (openaiApiKey (extractApiKeys example_request))"
    by (simp_all add: extractApiKeys_def example_request_def or_else_def truthy_def)
  have n: "''abc'' \<noteq> []" by simp
  from sse_get_register_replaces [OF a p k n, of "7::nat" "\<lambda>k. None"] a p k
  show ?thesis by simp
qed

text \<open>
  Claim C4, as the specification words it, fails: the id \<open>abc\<close> is registered with entry 1,
  a second stream registers the same id with entry 2, the handler answers with the event
  stream as for any other id, and the registry maps \<open>abc\<close> to entry 2.
\<close>

theorem sse_get_register_counterexample:
  "[''abc'' \<mapsto> (1::nat)] ''abc'' = Some 1
   \<and> fst (sse_get example_request (Inr (Some ''abc'')) (2::nat) [''abc'' \<mapsto> 1]) = EventStream
   \<and> snd (sse_get example_request (Inr (Some ''abc'')) (2::nat) [''abc'' \<mapsto> 1]) ''abc'' = Some 2"
  by (simp add: sse_get_def extractApiKeys_def example_request_def truthy_def template_def
      or_else_def)

text \<open>Removal is idempotent.\<close>

lemma sse_close_idempotent: "sse_close sessionId (sse_close sessionId reg) = sse_close sessionId reg"
  by (simp add: sse_close_def)

text \<open>
  Claim C8, as the code has it.  A post whose \<^verbatim>\<open>sessionId\<close> is absent or empty gets 400;
  a post with a \<^verbatim>\<open>sessionId\<close> \<open>X\<close> that is not empty and has no registered connection
  gets 503 with the body \<^verbatim>\<open>No active SSE connection for session X\<close>; the registry is
  the same afterwards in both cases.
\<close>

theorem messages_post_statuses:
  "(\<not> truthy sessionId \<longrightarrow>
      messages_post sessionId handlePostMessage reg
        = (Status 400 ''Missing sessionId parameter'', reg))
   \<and> (X \<noteq> [] \<and> reg X = None \<longrightarrow>
      messages_post (Some X) handlePostMessage reg
        = (Status 503 (''No active SSE connection for session '' @ X), reg))"
  by (simp add: messages_post_def truthy_def template_def)

theorem messages_post_statuses_witness:
  "\<not> truthy None
   \<and> messages_post None (\<lambda>c::nat. Handled (Status 202 ''Accepted'')) [''abc'' \<mapsto> 1]
       = (Status 400 ''Missing sessionId parameter'', [''abc'' \<mapsto> 1])
   \<and> ''X'' \<noteq> [] \<and> [''abc'' \<mapsto> (1::nat)] ''X'' = None
   \<and> messages_post (Some ''X'') (\<lambda>c::nat. Handled (Status 202 ''Accepted'')) [''abc'' \<mapsto> 1]
       = (Status 503 ''No active SSE connection for session X'', [''abc'' \<mapsto> 1])"
  using messages_post_statuses [of None "\<lambda>c::nat. Handled (Status 202 ''Accepted'')"
      "[''abc'' \<mapsto> 1]" "''X''"]
  by (simp add: truthy_def)

text \<open>
  Claim C8, as the specification words it, fails for the empty id: \<^verbatim>\<open>?sessionId=\<close>
  supplies a session id for which no connection is registered, and the answer is 400,
  not 503.
\<close>

theorem messages_post_empty_id_counterexample:
  "fst (messages_post (Some []) (\<lambda>c::nat. Handled (Status 202 ''Accepted'')) (\<lambda>k. None))
     = Status 400 ''Missing sessionId parameter''
   \<and> fst (messages_post (Some []) (\<lambda>c::nat. Handled (Status 202 ''Accepted'')) (\<lambda>k. None))
     \<noteq> Status 503 (''No active SSE connection for session '' @ [])"
  by (simp add: messages_post_def truthy_def template_def)

section \<open>Screenshots\<close>

lemma cleanup_loop_map:
  "map_of (fst (cleanup_loop names shots count)) k
     = (if k \<in> set names then None else map_of shots k)"
  by (induction names shots count rule: cleanup_loop.induct)
     (auto simp: AList.delete_conv)

lemma cleanup_loop_count:
  "snd (cleanup_loop names shots count)
     = count + card {k \<in> set names. map_of shots k \<noteq> None}"
proof (induction names shots count rule: cleanup_loop.induct)
  case (1 shots count)
  then show ?case by simp
next
  case (2 name names shots count)
  show ?case
  proof (cases "map_of shots name \<noteq> None")
    case True
    have "{k \<in> set (name # names). map_of shots k \<noteq> None}
        = insert name {k \<in> set names. map_of (AList.delete name shots) k \<noteq> None}"
      using True by (auto simp: AList.delete_conv)
    moreover have "name \<notin> {k \<in> set names. map_of (AList.delete name shots) k \<noteq> None}"
      by (simp add: AList.delete_conv)
    ultimately have "card {k \<in> set (name # names). map_of shots k \<noteq> None}
        = Suc (card {k \<in> set names. map_of (AList.delete name shots) k \<noteq> None})"
      by simp
    with True 2 show ?thesis by simp
  next
    case False
    then have "{k \<in> set (name # names). map_of shots k \<noteq> None}
        = {k \<in> set names. map_of shots k \<noteq> None}" by auto
    with False 2 show ?thesis by simp
  qed
qed

lemma addScreenshot_shots:
  "map_of (screenshots (addScreenshot s n d st)) = (map_of (screenshots st))(n \<mapsto> d)"
  by (simp add: addScreenshot_def Let_def AList.update_conv')

lemma addScreenshot_tracking:
  "map_of (sessionScreenshots (addScreenshot s n d st)) s
     = Some (set_add n (case map_of (sessionScreenshots st) s of None \<Rightarrow> [] | Some ns \<Rightarrow> ns))"
  by (auto simp: addScreenshot_def Let_def AList.update_conv' split: option.splits)

lemma addScreenshot_tracking_other:
  "s' \<noteq> s \<Longrightarrow> map_of (sessionScreenshots (addScreenshot s n d st)) s'
     = map_of (sessionScreenshots st) s'"
  by (auto simp: addScreenshot_def Let_def AList.update_conv' split: option.splits)

lemma cleanup_tracked:
  assumes "map_of (sessionScreenshots st) s = Some names"
  shows "fst (cleanupSessionScreenshots s st)
           = card {k \<in> set names. map_of (screenshots st) k \<noteq> None}"
    and "map_of (screenshots (snd (cleanupSessionScreenshots s st))) k
           = (if k \<in> set names then None else map_of (screenshots st) k)"
    and "map_of (sessionScreenshots (snd (cleanupSessionScreenshots s st))) s = None"
  using assms cleanup_loop_count [of names "screenshots st" 0]
    cleanup_loop_map [of names "screenshots st" 0 k]
  by (auto simp: cleanupSessionScreenshots_def AList.delete_conv split: prod.splits)

text \<open>
  Claim C10.  The screenshots are in one map keyed by the name alone.  From any state and
  for two distinct sessions \<open>s1\<close>, \<open>s2\<close> that use the same name \<open>n\<close>: after \<open>s1\<close> and then
  \<open>s2\<close> have added a screenshot named \<open>n\<close>, the map holds the data of \<open>s2\<close>; \<open>n\<close> is still
  tracked for \<open>s1\<close>; the clean-up of \<open>s1\<close> returns the number of names tracked for \<open>s1\<close>
  that the map holds, \<open>n\<close> among them, so at least 1, and the screenshot named \<open>n\<close> is
  gone afterwards.  The clean-up of a session that tracks nothing returns 0 and leaves
  the state as it is.
\<close>

theorem screenshots_keyed_by_name:
  "(s1 \<noteq> s2 \<longrightarrow>
      (let st2 = addScreenshot s2 n d2 (addScreenshot s1 n d1 st);
           r = cleanupSessionScreenshots s1 st2
       in map_of (screenshots st2) n = Some d2
          \<and> (\<exists>names. map_of (sessionScreenshots st2) s1 = Some names \<and> n \<in> set names
                \<and> fst r = card {k \<in> set names. map_of (screenshots st2) k \<noteq> None})
          \<and> 0 < fst r
          \<and> map_of (screenshots (snd r)) n = None))
   \<and> (map_of (sessionScreenshots st0) s = None \<longrightarrow> cleanupSessionScreenshots s st0 = (0, st0))"
proof (intro conjI impI)
  assume d: "s1 \<noteq> s2"
  let ?st1 = "addScreenshot s1 n d1 st"
  let ?st2 = "addScreenshot s2 n d2 ?st1"
  let ?r = "cleanupSessionScreenshots s1 ?st2"
  have shots: "map_of (screenshots ?st2) n = Some d2"
    by (simp add: addScreenshot_shots)
  have "\<exists>names. map_of (sessionScreenshots ?st2) s1 = Some names \<and> n \<in> set names"
    using d by (simp add: addScreenshot_tracking_other addScreenshot_tracking set_add_def)
  then obtain names
    where tracked: "map_of (sessionScreenshots ?st2) s1 = Some names" and n: "n \<in> set names"
    by blast
  let ?held = "{k \<in> set names. map_of (screenshots ?st2) k \<noteq> None}"
  have count: "fst ?r = card ?held"
    using tracked by (rule cleanup_tracked(1))
  have "finite ?held" by simp
  moreover have "n \<in> ?held" using n shots by simp
  ultimately have "0 < card ?held"
    using card_gt_0_iff by blast
  then have pos: "0 < fst ?r" using count by simp
  have gone: "map_of (screenshots (snd ?r)) n = None"
    using cleanup_tracked(2) [OF tracked, of n] n by simp
  have ex: "\<exists>names. map_of (sessionScreenshots ?st2) s1 = Some names \<and> n \<in> set names
                \<and> fst ?r = card {k \<in> set names. map_of (screenshots ?st2) k \<noteq> None}"
    using tracked n count by blast
  show "let st2 = ?st2; r = cleanupSessionScreenshots s1 st2
       in map_of (screenshots st2) n = Some d2
          \<and> (\<exists>names. map_of (sessionScreenshots st2) s1 = Some names \<and> n \<in> set names
                \<and> fst r = card {k \<in> set names. map_of (screenshots st2) k \<noteq> None})
          \<and> 0 < fst r
          \<and> map_of (screenshots (snd r)) n = None"
    unfolding Let_def using shots ex pos gone by (intro conjI)
next
  assume "map_of (sessionScreenshots st0) s = None"
  then show "cleanupSessionScreenshots s st0 = (0, st0)"
    by (simp add: cleanupSessionScreenshots_def)
qed

theorem screenshots_keyed_by_name_witness:
  "(let st2 = addScreenshot ''s2'' ''shot'' ''d2'' (addScreenshot ''s1'' ''shot'' ''d1'' no_resources);
        r = cleanupSessionScreenshots ''s1'' st2
    in ''s1'' \<noteq> ''s2'' \<and> map_of (screenshots st2) ''shot'' = Some ''d2'' \<and> 0 < fst r
       \<and> map_of (screenshots (snd r)) ''shot'' = None)
   \<and> map_of (sessionScreenshots no_resources) ''s3'' = None
   \<and> cleanupSessionScreenshots ''s3'' no_resources = (0, no_resources)"
  using screenshots_keyed_by_name [of "''s1''" "''s2''" "''shot''" "''d2''" "''d1''"
      no_resources no_resources "''s3''"]
  by (simp add: Let_def no_resources_def)

text \<open>Reading back a stored screenshot whose name holds no separator and whose data is not empty.\<close>

lemma startsWith_append [simp]: "startsWith (p @ r) p"
  by (induction p) auto

lemma split_from_no_sep:
  "\<not> includes_str s sep \<Longrightarrow> split_from sep piece s = [piece @ s]"
  by (induction s arbitrary: piece) auto

lemma split_screenshot_uri:
  "\<not> includes_str n ''://'' \<Longrightarrow> split (''screenshot://'' @ n) ''://'' = [''screenshot'', n]"
  by (simp add: split_def split_from_no_sep)

lemma readResource_roundtrip:
  assumes "\<not> includes_str n ''://''" and "d \<noteq> []"
  shows "readResource (''screenshot://'' @ n) (addScreenshot s n d st)
           = Inr [\<lparr>content_uri = ''screenshot://'' @ n, content_mimeType = ''image/png'', blob = d\<rparr>]"
proof -
  have sp: "split (''screenshot://'' @ n) ''://'' = [''screenshot'', n]"
    using assms(1) by (rule split_screenshot_uri)
  have sw: "startsWith (''screenshot://'' @ n) ''screenshot://''"
    by (rule startsWith_append)
  have "readResource (''screenshot://'' @ n) (addScreenshot s n d st)
      = (case (if d \<noteq> [] then Some d else None) of
           Some screenshot \<Rightarrow>
             Inr [\<lparr>content_uri = ''screenshot://'' @ n, content_mimeType = ''image/png'',
                   blob = screenshot\<rparr>]
         | None \<Rightarrow> Inl (''Resource not found: '' @ ''screenshot://'' @ n))"
    unfolding readResource_def Let_def sp addScreenshot_shots
    by (simp only: sw if_True list.case fun_upd_same option.case)
  with assms(2) show ?thesis by simp
qed

lemma readResource_other_scheme:
  "\<not> startsWith u ''screenshot://'' \<Longrightarrow> readResource u st = Inl (''Resource not found: '' @ u)"
  by (simp add: readResource_def)

text \<open>
  Claim C9 does not hold of the code.  A screenshot stored under the name \<open>a://b\<close> is listed
  by \<open>listResources\<close> with the URI \<open>screenshot://a://b\<close>, but \<open>readResource\<close> takes the
  name from \<^verbatim>\<open>uri.split("://")[1]\<close>, which is \<open>a\<close>, finds nothing under it and throws
  \<^verbatim>\<open>Resource not found\<close> for the URI of a stored screenshot.
\<close>

theorem readResource_separator_in_name:
  "map entry_uri (listResources (addScreenshot ''s'' ''a://b'' ''DATA'' no_resources))
     = [''screenshot://a://b'']
   \<and> readResource ''screenshot://a://b'' (addScreenshot ''s'' ''a://b'' ''DATA'' no_resources)
     = Inl ''Resource not found: screenshot://a://b''"
  by (simp add: readResource_def addScreenshot_def split_def listResources_def no_resources_def)

text \<open>
  The same URI reads another screenshot's data when one is stored under \<open>a\<close>, and a
  screenshot stored with empty data is reported as not found.
\<close>

lemma readResource_wrong_screenshot:
  "readResource ''screenshot://a://b''
     (addScreenshot ''s'' ''a'' ''OTHER'' (addScreenshot ''s'' ''a://b'' ''DATA'' no_resources))
   = Inr [\<lparr>content_uri = ''screenshot://a://b'', content_mimeType = ''image/png'',
           blob = ''OTHER''\<rparr>]"
  by (simp add: readResource_def addScreenshot_def split_def no_resources_def)

lemma readResource_empty_data:
  "readResource ''screenshot://a'' (addScreenshot ''s'' ''a'' [] no_resources)
   = Inl ''Resource not found: screenshot://a''"
  by (simp add: readResource_def addScreenshot_def split_def no_resources_def)

end
